theory Spec2Isabelle
  imports Main "HOL-Library.Word"
begin

unbundle bit_operations_syntax

section \<open>The operating system as the program sees it\<close>

text \<open>
  \<^verbatim>\<open>server.cpp\<close> is a single-threaded epoll server: every step it takes is a system
  call or a line of output. The embedding makes both explicit. Each function of the
  source becomes a function that takes the state of the world (what the kernel will
  answer to \<^verbatim>\<open>accept\<close> and \<^verbatim>\<open>read\<close>) and returns the list of actions it performed, in
  program order, together with the world it leaves behind or the reason the process
  stopped.
\<close>

type_synonym fd = int
type_synonym errno = int

text \<open>
  \<^verbatim>\<open>epoll\<close> exists on Linux only, where \<^verbatim>\<open>errno.h\<close> has
  \<^verbatim>\<open>#define EAGAIN 11\<close> and \<^verbatim>\<open>#define EWOULDBLOCK EAGAIN\<close>.
\<close>

definition EAGAIN :: errno where
  "EAGAIN = 11"

definition EWOULDBLOCK :: errno where
  "EWOULDBLOCK = EAGAIN"

text \<open>The event bits of \<^verbatim>\<open>sys/epoll.h\<close>.\<close>

definition EPOLLIN :: "32 word" where
  "EPOLLIN = 0x001"

definition EPOLLERR :: "32 word" where
  "EPOLLERR = 0x008"

definition EPOLLHUP :: "32 word" where
  "EPOLLHUP = 0x010"

definition EPOLLET :: "32 word" where
  "EPOLLET = push_bit 31 1"

definition EXIT_FAILURE :: int where
  "EXIT_FAILURE = 1"

record epoll_event =
  events :: "32 word"
  data_fd :: fd

subsection \<open>What the kernel holds\<close>

text \<open>
  For each descriptor the kernel holds a queue of what \<^verbatim>\<open>read\<close> will find: received
  bytes, the end of the stream (the peer shut down), or a pending error. An empty queue
  means that nothing has arrived: a non-blocking \<^verbatim>\<open>read\<close> fails with \<^verbatim>\<open>EAGAIN\<close>.
\<close>

datatype recv_item = Data string | Eof | Recv_error errno

text \<open>
  A connection waiting in the listening socket's queue: the descriptor \<^verbatim>\<open>accept\<close> will
  return for it, what \<^verbatim>\<open>getnameinfo\<close> will make of its address (\<open>None\<close>: a non-zero
  error code), and whether \<^verbatim>\<open>epoll_ctl(EPOLL_CTL_ADD)\<close> will take it.
\<close>

record connection =
  conn_fd :: fd
  peer :: "(string \<times> string) option"
  registers :: bool

datatype accept_item = Pending connection | Accept_error errno

text \<open>
  What one call of \<^verbatim>\<open>epoll_wait\<close> will find: a list of ready events, or a failure
  (\<^verbatim>\<open>EINTR\<close>, say). With nothing left the call blocks for ever (timeout \<open>-1\<close>).
\<close>

datatype wait_item = Ready "epoll_event list" | Wait_error errno

text \<open>
  \<open>stack\<close> is what an uninitialised automatic array finds in its cells
  (\<^verbatim>\<open>char buf[512]\<close> has no initialiser).
\<close>

record world =
  accept_queue :: "accept_item list"
  recv_queue :: "fd \<Rightarrow> recv_item list"
  stack :: "nat \<Rightarrow> char"

subsection \<open>System calls\<close>

datatype read_result = Bytes string | Read_failed errno

text \<open>
  \<^verbatim>\<open>read(fd, buf, n)\<close>: \<open>Bytes bs\<close> is a return value of \<open>length bs\<close> with \<open>bs\<close> copied to
  the front of the buffer, \<open>Read_failed e\<close> is \<open>-1\<close> with \<open>errno = e\<close>. At most \<open>n\<close> bytes
  are taken; what does not fit stays queued.
\<close>

fun sys_read :: "recv_item list \<Rightarrow> nat \<Rightarrow> read_result \<times> recv_item list" where
  "sys_read [] n = (Read_failed EAGAIN, [])"
| "sys_read (Eof # q) n = (Bytes [], q)"
| "sys_read (Recv_error e # q) n = (Read_failed e, q)"
| "sys_read (Data bs # q) n =
     (if length bs \<le> n then (Bytes bs, q)
      else (Bytes (take n bs), Data (drop n bs) # q))"

datatype accept_result = Accepted connection | Accept_failed errno

fun sys_accept :: "accept_item list \<Rightarrow> accept_result \<times> accept_item list" where
  "sys_accept [] = (Accept_failed EAGAIN, [])"
| "sys_accept (Pending c # q) = (Accepted c, q)"
| "sys_accept (Accept_error e # q) = (Accept_failed e, q)"

datatype wait_result = Events "epoll_event list" | Wait_failed errno

text \<open>
  \<^verbatim>\<open>epoll_wait(efd, events, maxevents, -1)\<close> returns at most \<open>maxevents\<close> events; the
  others stay on the ready list. \<open>None\<close>: the call never returns.
\<close>

fun sys_epoll_wait :: "wait_item list \<Rightarrow> nat \<Rightarrow> (wait_result \<times> wait_item list) option" where
  "sys_epoll_wait [] n = None"
| "sys_epoll_wait (Wait_error e # q) n = Some (Wait_failed e, q)"
| "sys_epoll_wait (Ready evs # q) n =
     (if length evs \<le> n then Some (Events evs, q)
      else Some (Events (take n evs), Ready (drop n evs) # q))"

subsection \<open>Actions and outcomes\<close>

text \<open>
  The trace of a run: the system calls in the order the program makes them, and the
  lines it writes. \<open>Log_\<close> actions go to standard output, \<open>Perror\<close> and \<open>Usage\<close> to
  standard error. \<open>Set_nonblocking\<close> stands for the pair
  \<^verbatim>\<open>fcntl(fd, F_GETFL, 0)\<close>, \<^verbatim>\<open>fcntl(fd, F_SETFL, flags | O_NONBLOCK)\<close>.
\<close>

datatype action =
    Sys_read fd read_result
  | Sys_accept fd accept_result
  | Sys_epoll_wait fd wait_result
  | Sys_close fd
  | Sys_setsockopt_reuseport fd
  | Set_nonblocking fd
  | Sys_epoll_ctl_add fd fd "32 word"
  | Sys_getaddrinfo string
  | Sys_freeaddrinfo
  | Sys_socket "fd option"
  | Sys_bind fd
  | Sys_listen fd
  | Sys_epoll_create1 "fd option"
  | Log_accepted string string fd
  | Log_incoming fd string
  | Log_closed fd
  | Perror string
  | Usage string

text \<open>
  Why a run stops short: an exception nobody catches (\<^verbatim>\<open>std::runtime_error\<close>; the program
  has no handler, so the process is terminated), or a store or load outside an array,
  after which C++ promises nothing. \<open>Out_of_bounds i n\<close>: index \<open>i\<close> of an array of \<open>n\<close>
  cells.
\<close>

datatype abort = Runtime_error string | Out_of_bounds nat nat

type_synonym 'a run = "action list \<times> (abort + 'a)"

definition emit :: "action list \<Rightarrow> 'a run \<Rightarrow> 'a run" where
  "emit tr r = (tr @ fst r, snd r)"

definition and_then :: "'a run \<Rightarrow> ('a \<Rightarrow> 'b run) \<Rightarrow> 'b run" where
  "and_then r f = (case snd r of Inl a \<Rightarrow> (fst r, Inl a) | Inr x \<Rightarrow> emit (fst r) (f x))"

section \<open>The reader: \<^verbatim>\<open>read_input_data\<close>\<close>

definition BUFSIZE :: nat where
  "BUFSIZE = 512"

definition NUL :: char where
  "NUL = CHR 0x00"

text \<open>\<^verbatim>\<open>char buf[512];\<close> as the loop body finds it.\<close>

definition fresh_buf :: "world \<Rightarrow> string" where
  "fresh_buf w = map (stack w) [0..<BUFSIZE]"

text \<open>The buffer after \<^verbatim>\<open>read\<close> has copied \<open>bs\<close> to its front.\<close>

definition filled :: "string \<Rightarrow> string \<Rightarrow> string" where
  "filled buf bs = bs @ drop (length bs) buf"

text \<open>\<^verbatim>\<open>buf[i] = c\<close>: \<open>None\<close> when the index is outside the array.\<close>

definition store :: "string \<Rightarrow> nat \<Rightarrow> char \<Rightarrow> string option" where
  "store buf i c = (if i < length buf then Some (buf[i := c]) else None)"

text \<open>
  \<^verbatim>\<open>std::string(buf)\<close>: the characters before the first NUL; \<open>None\<close> when the array holds
  no NUL, so that the constructor runs off its end.
\<close>

definition c_string :: "string \<Rightarrow> string option" where
  "c_string buf = (if NUL \<in> set buf then Some (takeWhile (\<lambda>c. c \<noteq> NUL) buf) else None)"

fun recv_size :: "recv_item \<Rightarrow> nat" where
  "recv_size (Data bs) = Suc (length bs)"
| "recv_size Eof = 1"
| "recv_size (Recv_error e) = 1"

lemma sys_read_smaller:
  "sys_read q0 n = (Bytes bs, q) \<Longrightarrow> bs \<noteq> [] \<Longrightarrow> 0 < n \<Longrightarrow>
   sum_list (map recv_size q) < sum_list (map recv_size q0)"
  by (induction q0 n rule: sys_read.induct) (auto split: if_splits)

text \<open>
  The \<^verbatim>\<open>while(true)\<close> of \<^verbatim>\<open>read_input_data\<close>. It returns the value of
  \<^verbatim>\<open>connection_must_be_closed\<close> at the \<^verbatim>\<open>break\<close>.
\<close>

function read_loop :: "fd \<Rightarrow> world \<Rightarrow> (world \<times> bool) run" where
  "read_loop client_socket_fd w =
     (case sys_read (recv_queue w client_socket_fd) BUFSIZE of
        (res, q) \<Rightarrow>
          let w' = w\<lparr>recv_queue := (recv_queue w)(client_socket_fd := q)\<rparr> in
          (case res of
             Read_failed e \<Rightarrow>
               if e \<noteq> EAGAIN
               then ([Sys_read client_socket_fd res, Perror ''read''], Inr (w', True))
               else ([Sys_read client_socket_fd res], Inr (w', False))
           | Bytes bs \<Rightarrow>
               if bs = [] then ([Sys_read client_socket_fd res], Inr (w', True))
               else
                 (case store (filled (fresh_buf w) bs) (length bs) NUL of
                    None \<Rightarrow>
                      ([Sys_read client_socket_fd res], Inl (Out_of_bounds (length bs) BUFSIZE))
                  | Some buf \<Rightarrow>
                      (case c_string buf of
                         None \<Rightarrow>
                           ([Sys_read client_socket_fd res], Inl (Out_of_bounds BUFSIZE BUFSIZE))
                       | Some s \<Rightarrow>
                           emit [Sys_read client_socket_fd res, Log_incoming client_socket_fd s]
                             (read_loop client_socket_fd w')))))"
  by pat_completeness auto
termination
proof (relation "measure (\<lambda>(fd, w). sum_list (map recv_size (recv_queue w fd)))", goal_cases)
  case 1
  show ?case by simp
next
  case 2
  then show ?case
    by (auto simp: BUFSIZE_def intro!: sys_read_smaller [OF sym])
qed

declare read_loop.simps [simp del]

definition read_input_data :: "fd \<Rightarrow> world \<Rightarrow> world run" where
  "read_input_data client_socket_fd w =
     (case read_loop client_socket_fd w of
        (tr, Inl a) \<Rightarrow> (tr, Inl a)
      | (tr, Inr (w', connection_must_be_closed)) \<Rightarrow>
          if connection_must_be_closed
          then (tr @ [Log_closed client_socket_fd, Sys_close client_socket_fd], Inr w')
          else (tr, Inr w'))"

text \<open>
  The actions of a loop iteration that goes on to the next one: a \<^verbatim>\<open>read\<close> on the
  descriptor that returned at least one byte, and the line logged for it.
\<close>

fun is_chunk :: "fd \<Rightarrow> action \<Rightarrow> bool" where
  "is_chunk fd (Sys_read fd' (Bytes bs)) = (fd' = fd \<and> bs \<noteq> [])"
| "is_chunk fd (Log_incoming fd' s) = (fd' = fd)"
| "is_chunk fd a = False"

section \<open>The acceptor: \<^verbatim>\<open>accept_new_connections\<close>\<close>

text \<open>
  What the loop body does for a connection \<^verbatim>\<open>accept\<close> returned, up to and including
  the call of \<^verbatim>\<open>epoll_ctl\<close>: the socket option, the log line when \<^verbatim>\<open>getnameinfo\<close>
  returned 0, the two \<^verbatim>\<open>fcntl\<close> calls, the registration for \<^verbatim>\<open>EPOLLIN | EPOLLET\<close>.
\<close>

definition set_up_connection :: "fd \<Rightarrow> connection \<Rightarrow> action list" where
  "set_up_connection efd c =
     [Sys_setsockopt_reuseport (conn_fd c)] @
     (case peer c of
        Some (hbuf, sbuf) \<Rightarrow> [Log_accepted hbuf sbuf (conn_fd c)]
      | None \<Rightarrow> []) @
     [Set_nonblocking (conn_fd c),
      Sys_epoll_ctl_add efd (conn_fd c) (EPOLLIN OR EPOLLET)]"

lemma sys_accept_smaller:
  "sys_accept q0 = (Accepted c, q) \<Longrightarrow> length q < length q0"
  by (induction q0 rule: sys_accept.induct) auto

function accept_new_connections :: "fd \<Rightarrow> fd \<Rightarrow> world \<Rightarrow> world run" where
  "accept_new_connections efd server_fd w =
     (case sys_accept (accept_queue w) of
        (res, q) \<Rightarrow>
          let w' = w\<lparr>accept_queue := q\<rparr> in
          (case res of
             Accept_failed e \<Rightarrow>
               if e = EAGAIN \<or> e = EWOULDBLOCK
               then ([Sys_accept server_fd res], Inr w')
               else ([Sys_accept server_fd res, Perror ''accept''], Inr w')
           | Accepted c \<Rightarrow>
               if \<not> registers c
               then (Sys_accept server_fd res # set_up_connection efd c @ [Perror ''epoll_ctl''],
                     Inl (Runtime_error
                       ''call to epoll_ctl failed (attempted to add new incoming connection)''))
               else emit (Sys_accept server_fd res # set_up_connection efd c)
                      (accept_new_connections efd server_fd w')))"
  by pat_completeness auto
termination
proof (relation "measure (\<lambda>(efd, server_fd, w). length (accept_queue w))", goal_cases)
  case 1
  show ?case by simp
next
  case 2
  then show ?case
    by (auto intro!: sys_accept_smaller [OF sym])
qed

declare accept_new_connections.simps [simp del]

text \<open>The trace of the iterations that accept the connections \<open>cs\<close>, one after the other.\<close>

definition accept_trace :: "fd \<Rightarrow> fd \<Rightarrow> connection list \<Rightarrow> action list" where
  "accept_trace efd server_fd cs =
     concat (map (\<lambda>c. Sys_accept server_fd (Accepted c) # set_up_connection efd c) cs)"

section \<open>The reactor: \<^verbatim>\<open>event_loop\<close>\<close>

definition MAX_EVENTS :: nat where
  "MAX_EVENTS = 128"

text \<open>
  The first branch of the loop body: \<^verbatim>\<open>(event.events & EPOLLERR) ||
  (event.events & EPOLLHUP) || (!(event.events & EPOLLIN))\<close>.
\<close>

definition abnormal :: "epoll_event \<Rightarrow> bool" where
  "abnormal event \<longleftrightarrow>
     events event AND EPOLLERR \<noteq> 0 \<or> events event AND EPOLLHUP \<noteq> 0 \<or>
     events event AND EPOLLIN = 0"

text \<open>The body of the \<^verbatim>\<open>for\<close> loop, for one event.\<close>

definition handle_event :: "fd \<Rightarrow> fd \<Rightarrow> world \<Rightarrow> epoll_event \<Rightarrow> world run" where
  "handle_event server_fd efd w event =
     (if abnormal event then ([Perror ''epoll error'', Sys_close (data_fd event)], Inr w)
      else if server_fd = data_fd event then accept_new_connections efd server_fd w
      else read_input_data (data_fd event) w)"

text \<open>The \<^verbatim>\<open>for\<close> loop over the events one \<^verbatim>\<open>epoll_wait\<close> returned, from index 0 upwards.\<close>

fun for_events :: "fd \<Rightarrow> fd \<Rightarrow> world \<Rightarrow> epoll_event list \<Rightarrow> world run" where
  "for_events server_fd efd w [] = ([], Inr w)"
| "for_events server_fd efd w (event # later) =
     (case handle_event server_fd efd w event of
        (tr, Inl a) \<Rightarrow> (tr, Inl a)
      | (tr, Inr w') \<Rightarrow> emit tr (for_events server_fd efd w' later))"

fun wait_size :: "wait_item \<Rightarrow> nat" where
  "wait_size (Ready evs) = Suc (length evs)"
| "wait_size (Wait_error e) = 1"

lemma sys_epoll_wait_smaller:
  "sys_epoll_wait sched n = Some (res, sched') \<Longrightarrow> 0 < n \<Longrightarrow>
   sum_list (map wait_size sched') < sum_list (map wait_size sched)"
  by (induction sched n rule: sys_epoll_wait.induct) (auto split: if_splits)

text \<open>
  The \<^verbatim>\<open>while(true)\<close> of \<^verbatim>\<open>event_loop\<close>, run against what the coming calls of
  \<^verbatim>\<open>epoll_wait\<close> will find. The loop has no exit: \<open>Inr w\<close> says that the process sits in
  an \<^verbatim>\<open>epoll_wait\<close> that has nothing more to return, \<open>Inl a\<close> that it was stopped. A
  negative count from \<^verbatim>\<open>epoll_wait\<close> gives the \<^verbatim>\<open>for\<close> loop no iteration.
\<close>

function event_loop :: "fd \<Rightarrow> fd \<Rightarrow> wait_item list \<Rightarrow> world \<Rightarrow> world run" where
  "event_loop server_fd efd sched w =
     (case sys_epoll_wait sched MAX_EVENTS of
        None \<Rightarrow> ([], Inr w)
      | Some (res, sched') \<Rightarrow>
          (case res of
             Wait_failed e \<Rightarrow>
               emit [Sys_epoll_wait efd res] (event_loop server_fd efd sched' w)
           | Events evs \<Rightarrow>
               (case for_events server_fd efd w evs of
                  (tr, Inl a) \<Rightarrow> (Sys_epoll_wait efd res # tr, Inl a)
                | (tr, Inr w') \<Rightarrow>
                    emit (Sys_epoll_wait efd res # tr) (event_loop server_fd efd sched' w'))))"
  by pat_completeness auto
termination
proof (relation "measure (\<lambda>(server_fd, efd, sched, w). sum_list (map wait_size sched))",
    goal_cases)
  case 1
  show ?case by simp
next
  case 2
  then show ?case
    by (auto simp: MAX_EVENTS_def intro!: sys_epoll_wait_smaller)
next
  case 3
  then show ?case
    by (auto simp: MAX_EVENTS_def intro!: sys_epoll_wait_smaller)
qed

declare event_loop.simps [simp del]

section \<open>Start-up: \<^verbatim>\<open>create_server_socket\<close> and \<^verbatim>\<open>main\<close>\<close>

text \<open>
  What the start-up calls will answer: whether \<^verbatim>\<open>getaddrinfo\<close>, \<^verbatim>\<open>bind\<close>, \<^verbatim>\<open>listen\<close> and the
  first \<^verbatim>\<open>epoll_ctl\<close> succeed, and the descriptors \<^verbatim>\<open>socket\<close> and \<^verbatim>\<open>epoll_create1\<close> return
  (\<open>None\<close>: \<open>-1\<close>).
\<close>

record startup =
  getaddrinfo_ok :: bool
  socket_result :: "fd option"
  bind_ok :: bool
  listen_ok :: bool
  epoll_create1_result :: "fd option"
  epoll_ctl_ok :: bool

definition make_socket_non_blocking :: "fd \<Rightarrow> action list" where
  "make_socket_non_blocking socket_fd = [Set_nonblocking socket_fd]"

definition create_server_socket :: "string \<Rightarrow> startup \<Rightarrow> fd run" where
  "create_server_socket port boot =
     (if \<not> getaddrinfo_ok boot
      then ([Sys_getaddrinfo port, Perror ''getaddrinfo''],
            Inl (Runtime_error ''call to getaddrinfo failed''))
      else
        (case socket_result boot of
           None \<Rightarrow>
             ([Sys_getaddrinfo port, Sys_socket None, Perror ''socket''],
              Inl (Runtime_error ''call to socket failed''))
         | Some server_fd \<Rightarrow>
             if \<not> bind_ok boot
             then ([Sys_getaddrinfo port, Sys_socket (Some server_fd), Sys_bind server_fd,
                    Perror ''bind''],
                   Inl (Runtime_error ''call to bind failed''))
             else ([Sys_getaddrinfo port, Sys_socket (Some server_fd), Sys_bind server_fd,
                    Sys_freeaddrinfo] @ make_socket_non_blocking server_fd,
                   Inr server_fd)))"

text \<open>
  How the process ends: \<^verbatim>\<open>std::exit\<close> with a status, an abort, or never: it waits in
  \<^verbatim>\<open>epoll_wait\<close>. The last two statements of \<^verbatim>\<open>main\<close> (\<^verbatim>\<open>close(server_fd)\<close> and
  \<^verbatim>\<open>return EXIT_SUCCESS\<close>) follow a loop without exit and are never reached.
\<close>

datatype ending = Exit int | Stopped abort | Waiting world

text \<open>
  \<^verbatim>\<open>main\<close>, with \<^verbatim>\<open>argv[0]\<close> as \<open>argv0\<close> and the arguments after it as \<open>args\<close>, so that
  \<^verbatim>\<open>argc\<close> is \<open>1 + length args\<close>.
\<close>

definition main :: "string \<Rightarrow> string list \<Rightarrow> startup \<Rightarrow> wait_item list \<Rightarrow> world \<Rightarrow>
    action list \<times> ending" where
  "main argv0 args boot sched w =
     (if 1 + int (length args) \<noteq> 2 then ([Usage argv0], Exit EXIT_FAILURE)
      else
        (case create_server_socket (args ! 0) boot of
           (tr, Inl a) \<Rightarrow> (tr, Stopped a)
         | (tr, Inr server_fd) \<Rightarrow>
             if \<not> listen_ok boot
             then (tr @ [Sys_listen server_fd, Perror ''listen''],
                   Stopped (Runtime_error ''call to listen failed''))
             else
               (case epoll_create1_result boot of
                  None \<Rightarrow>
                    (tr @ [Sys_listen server_fd, Sys_epoll_create1 None, Perror ''epoll_create1''],
                     Stopped (Runtime_error ''call to epoll_create1 failed''))
                | Some efd \<Rightarrow>
                    let setup = tr @ [Sys_listen server_fd, Sys_epoll_create1 (Some efd),
                                      Sys_epoll_ctl_add efd server_fd (EPOLLIN OR EPOLLET)] in
                    if \<not> epoll_ctl_ok boot
                    then (setup @ [Perror ''epoll_ctl''],
                          Stopped (Runtime_error ''call to epoll_ctl failed (attempted to add fd)''))
                    else
                      (case event_loop server_fd efd sched w of
                         (tr', Inl a) \<Rightarrow> (setup @ tr', Stopped a)
                       | (tr', Inr w') \<Rightarrow> (setup @ tr', Waiting w')))))"

section \<open>Worlds and traces the properties speak about\<close>

text \<open>Every connection still waiting to be accepted will be taken by \<^verbatim>\<open>epoll_ctl\<close>.\<close>

definition registrable :: "world \<Rightarrow> bool" where
  "registrable w \<longleftrightarrow> (\<forall>c. Pending c \<in> set (accept_queue w) \<longrightarrow> registers c)"

text \<open>No chunk of received bytes reaches the size of the read buffer.\<close>

definition short_reads :: "world \<Rightarrow> bool" where
  "short_reads w \<longleftrightarrow> (\<forall>fd bs. Data bs \<in> set (recv_queue w fd) \<longrightarrow> length bs < BUFSIZE)"

text \<open>Both: a world in which neither way of stopping the process is open.\<close>

definition steady :: "world \<Rightarrow> bool" where
  "steady w \<longleftrightarrow> registrable w \<and> short_reads w"

text \<open>The actions that create a socket.\<close>

fun is_socket :: "action \<Rightarrow> bool" where
  "is_socket (Sys_socket r) = True"
| "is_socket a = False"

section \<open>Example worlds\<close>

text \<open>Start-up calls that all succeed: the listening socket is 3, the epoll instance 4.\<close>

definition boot_ok :: startup where
  "boot_ok = \<lparr>getaddrinfo_ok = True, socket_result = Some 3, bind_ok = True, listen_ok = True,
     epoll_create1_result = Some 4, epoll_ctl_ok = True\<rparr>"

text \<open>A client on descriptor 5 that sent \<^verbatim>\<open>ping\<close> and shut down its side.\<close>

definition ping_world :: world where
  "ping_world = \<lparr>accept_queue = [],
     recv_queue = (\<lambda>fd. if fd = 5 then [Data ''ping'', Eof] else []),
     stack = (\<lambda>i. CHR ''?'')\<rparr>"

text \<open>
  Descriptor 5 sent two bytes and was then reset (\<^verbatim>\<open>ECONNRESET\<close> is 104); every other
  descriptor has two bytes waiting and is still connected.
\<close>

definition reset_world :: world where
  "reset_world = \<lparr>accept_queue = [],
     recv_queue = (\<lambda>fd. if fd = 5 then [Data ''hi'', Recv_error 104] else [Data ''yo'']),
     stack = (\<lambda>i. CHR ''?'')\<rparr>"

text \<open>Descriptor 5 has exactly 512 bytes waiting.\<close>

definition full_buffer_world :: world where
  "full_buffer_world = \<lparr>accept_queue = [],
     recv_queue = (\<lambda>fd. if fd = 5 then [Data (replicate 512 CHR ''a'')] else []),
     stack = (\<lambda>i. CHR ''?'')\<rparr>"

text \<open>Descriptor 5 has exactly 1500 bytes waiting, all of them zero.\<close>

definition burst_world :: world where
  "burst_world = \<lparr>accept_queue = [],
     recv_queue = (\<lambda>fd. if fd = 5 then [Data (replicate 1500 NUL)] else []),
     stack = (\<lambda>i. CHR ''?'')\<rparr>"

text \<open>No connection waiting, no data on any descriptor.\<close>

definition quiet_world :: world where
  "quiet_world = \<lparr>accept_queue = [], recv_queue = (\<lambda>fd. []), stack = (\<lambda>i. CHR ''?'')\<rparr>"

text \<open>
  Three clients in the listening socket's queue: \<open>alice\<close>, whose address \<^verbatim>\<open>getnameinfo\<close>
  can print; \<open>bob\<close>, for whom it fails; \<open>carol\<close>, whom \<^verbatim>\<open>epoll_ctl\<close> will refuse.
\<close>

definition alice :: connection where
  "alice = \<lparr>conn_fd = 5, peer = Some (''10.0.0.1'', ''40000''), registers = True\<rparr>"

definition bob :: connection where
  "bob = \<lparr>conn_fd = 6, peer = None, registers = True\<rparr>"

definition carol :: connection where
  "carol = \<lparr>conn_fd = 7, peer = Some (''10.0.0.3'', ''40002''), registers = False\<rparr>"

text \<open>
  A failing \<^verbatim>\<open>accept\<close> (\<^verbatim>\<open>EMFILE\<close> is 24) ahead of \<open>alice\<close>, a reset on descriptor 5, data on the
  others.
\<close>

definition troubled_world :: world where
  "troubled_world = reset_world\<lparr>accept_queue := [Accept_error 24, Pending alice]\<rparr>"

text \<open>Two events: a descriptor that is readable, and one whose peer hung up.\<close>

definition readable :: "fd \<Rightarrow> epoll_event" where
  "readable fd = \<lparr>events = EPOLLIN, data_fd = fd\<rparr>"

definition hung_up :: "fd \<Rightarrow> epoll_event" where
  "hung_up fd = \<lparr>events = EPOLLIN OR EPOLLHUP, data_fd = fd\<rparr>"

section \<open>Properties of runs\<close>

lemma emit_emit: "emit a (emit b r) = emit (a @ b) r"
  by (simp add: emit_def)

lemma emit_Nil: "emit [] r = r"
  by (simp add: emit_def)

lemma and_then_Inl: "and_then (tr, Inl a) f = (tr, Inl a)"
  by (simp add: and_then_def)

lemma and_then_Inr: "and_then (tr, Inr x) f = emit tr (f x)"
  by (simp add: and_then_def)

lemma and_then_emit: "and_then (emit tr r) f = emit tr (and_then r f)"
  by (cases r) (auto simp: and_then_def emit_def split: sum.splits)

lemma and_then_assoc: "and_then (and_then r f) g = and_then r (\<lambda>x. and_then (f x) g)"
  by (cases r) (auto simp: and_then_def emit_def split: sum.splits)

lemma emit_pair: "emit a (tr, res) = (a @ tr, res)"
  by (simp add: emit_def)

section \<open>Properties of the reader\<close>

lemma length_fresh_buf: "length (fresh_buf w) = BUFSIZE"
  by (simp add: fresh_buf_def)

lemma store_filled:
  "store (filled buf bs) (length bs) c =
     (if length bs < length buf then Some (bs @ c # drop (Suc (length bs)) buf) else None)"
  by (auto simp: store_def filled_def list_update_append upd_conv_take_nth_drop
      Cons_nth_drop_Suc [symmetric])

lemma c_string_terminated:
  "c_string (bs @ NUL # rest) = Some (takeWhile (\<lambda>c. c \<noteq> NUL) bs)"
  by (induction bs) (auto simp: c_string_def)

lemma sys_read_length: "sys_read q n = (Bytes bs, q') \<Longrightarrow> length bs \<le> n"
  by (induction q n rule: sys_read.induct) (auto split: if_splits)

text \<open>
  One iteration of the loop with the buffer worked out: a chunk shorter than the buffer is
  logged up to its first NUL and the loop goes on; a chunk that fills the buffer makes
  \<^verbatim>\<open>buf[count] = 0\<close> a store to \<^verbatim>\<open>buf[512]\<close>.
\<close>

lemma read_loop_step:
  "read_loop fd w =
     (case sys_read (recv_queue w fd) BUFSIZE of
        (res, q) \<Rightarrow>
          let w' = w\<lparr>recv_queue := (recv_queue w)(fd := q)\<rparr> in
          (case res of
             Read_failed e \<Rightarrow>
               if e \<noteq> EAGAIN then ([Sys_read fd res, Perror ''read''], Inr (w', True))
               else ([Sys_read fd res], Inr (w', False))
           | Bytes bs \<Rightarrow>
               if bs = [] then ([Sys_read fd res], Inr (w', True))
               else if length bs < BUFSIZE
               then emit [Sys_read fd res, Log_incoming fd (takeWhile (\<lambda>c. c \<noteq> NUL) bs)]
                      (read_loop fd w')
               else ([Sys_read fd res], Inl (Out_of_bounds (length bs) BUFSIZE))))"
  by (subst read_loop.simps)
    (simp add: store_filled length_fresh_buf c_string_terminated Let_def
      split: prod.splits read_result.splits)

text \<open>
  Every run of the loop is a sequence of chunk iterations followed by exactly one last
  \<^verbatim>\<open>read\<close>: one that returned 0, one that failed with \<^verbatim>\<open>EAGAIN\<close>, one that failed with
  another error, or one that filled the buffer.
\<close>

lemma read_loop_shape:
  "\<exists>pre. list_all (is_chunk fd) pre \<and>
     ((\<exists>w'. read_loop fd w = (pre @ [Sys_read fd (Bytes [])], Inr (w', True))) \<or>
      (\<exists>w'. read_loop fd w = (pre @ [Sys_read fd (Read_failed EAGAIN)], Inr (w', False))) \<or>
      (\<exists>w' e. e \<noteq> EAGAIN \<and>
         read_loop fd w = (pre @ [Sys_read fd (Read_failed e), Perror ''read''], Inr (w', True))) \<or>
      (\<exists>bs. length bs = BUFSIZE \<and>
         read_loop fd w = (pre @ [Sys_read fd (Bytes bs)], Inl (Out_of_bounds BUFSIZE BUFSIZE))))"
proof (induction "sum_list (map recv_size (recv_queue w fd))" arbitrary: w rule: less_induct)
  case less
  obtain res q where rd: "sys_read (recv_queue w fd) BUFSIZE = (res, q)"
    by (cases "sys_read (recv_queue w fd) BUFSIZE")
  define w' where "w' = w\<lparr>recv_queue := (recv_queue w)(fd := q)\<rparr>"
  show ?case
  proof (cases res)
    case (Read_failed e)
    show ?thesis
    proof (cases "e = EAGAIN")
      case True
      with rd Read_failed have "read_loop fd w = ([] @ [Sys_read fd (Read_failed EAGAIN)], Inr (w', False))"
        by (subst read_loop_step) (simp add: w'_def)
      then show ?thesis by (intro exI [of _ "[]"]) simp
    next
      case False
      with rd Read_failed
      have "read_loop fd w = ([] @ [Sys_read fd (Read_failed e), Perror ''read''], Inr (w', True))"
        by (subst read_loop_step) (simp add: w'_def)
      with False show ?thesis by (intro exI [of _ "[]"]) simp
    qed
  next
    case (Bytes bs)
    consider "bs = []" | "bs \<noteq> []" "length bs < BUFSIZE" | "length bs = BUFSIZE"
      using sys_read_length [of "recv_queue w fd" BUFSIZE bs q] rd Bytes
      by fastforce
    then show ?thesis
    proof cases
      case 1
      with rd Bytes have "read_loop fd w = ([] @ [Sys_read fd (Bytes [])], Inr (w', True))"
        by (subst read_loop_step) (simp add: w'_def)
      then show ?thesis by (intro exI [of _ "[]"]) simp
    next
      case 2
      let ?step = "[Sys_read fd (Bytes bs), Log_incoming fd (takeWhile (\<lambda>c. c \<noteq> NUL) bs)]"
      from 2 rd Bytes have eq: "read_loop fd w = emit ?step (read_loop fd w')"
        by (subst read_loop_step) (simp add: w'_def)
      have "sum_list (map recv_size (recv_queue w' fd)) < sum_list (map recv_size (recv_queue w fd))"
        using sys_read_smaller [of "recv_queue w fd" BUFSIZE bs q] rd Bytes 2
        by (simp add: w'_def BUFSIZE_def)
      from less [OF this] obtain pre where pre: "list_all (is_chunk fd) pre"
        and alt: "(\<exists>w''. read_loop fd w' = (pre @ [Sys_read fd (Bytes [])], Inr (w'', True))) \<or>
      (\<exists>w''. read_loop fd w' = (pre @ [Sys_read fd (Read_failed EAGAIN)], Inr (w'', False))) \<or>
      (\<exists>w'' e. e \<noteq> EAGAIN \<and>
         read_loop fd w' = (pre @ [Sys_read fd (Read_failed e), Perror ''read''], Inr (w'', True))) \<or>
      (\<exists>bs. length bs = BUFSIZE \<and>
         read_loop fd w' = (pre @ [Sys_read fd (Bytes bs)], Inl (Out_of_bounds BUFSIZE BUFSIZE)))"
        by blast
      have "list_all (is_chunk fd) (?step @ pre)"
        using pre 2 by simp
      moreover from alt have "(\<exists>w''. read_loop fd w = ((?step @ pre) @ [Sys_read fd (Bytes [])], Inr (w'', True))) \<or>
      (\<exists>w''. read_loop fd w = ((?step @ pre) @ [Sys_read fd (Read_failed EAGAIN)], Inr (w'', False))) \<or>
      (\<exists>w'' e. e \<noteq> EAGAIN \<and>
         read_loop fd w = ((?step @ pre) @ [Sys_read fd (Read_failed e), Perror ''read''], Inr (w'', True))) \<or>
      (\<exists>bs. length bs = BUFSIZE \<and>
         read_loop fd w = ((?step @ pre) @ [Sys_read fd (Bytes bs)], Inl (Out_of_bounds BUFSIZE BUFSIZE)))"
        unfolding eq by (auto simp: emit_def)
      ultimately show ?thesis by blast
    next
      case 3
      then have "bs \<noteq> []"
        by (auto simp: BUFSIZE_def)
      with 3 rd Bytes
      have "read_loop fd w = ([] @ [Sys_read fd (Bytes bs)], Inl (Out_of_bounds BUFSIZE BUFSIZE))"
        by (subst read_loop_step) (simp add: w'_def)
      with 3 show ?thesis by (intro exI [of _ "[]"]) simp
    qed
  qed
qed

lemma chunks_no_end:
  assumes "list_all (is_chunk fd) pre"
  shows "Sys_read fd (Bytes []) \<notin> set pre" and "Sys_read fd (Read_failed e) \<notin> set pre"
    and "Sys_close x \<notin> set pre" and "Log_closed x \<notin> set pre" and "Perror s \<notin> set pre"
  using assms by (auto simp: list_all_iff)

lemma count_list_chunks:
  "list_all (is_chunk fd) pre \<Longrightarrow> count_list pre (Sys_close x) = 0"
  by (induction pre) auto

text \<open>The iterations of the loop, by what \<^verbatim>\<open>read\<close> returned.\<close>

lemma read_loop_failed:
  "sys_read (recv_queue w fd) BUFSIZE = (Read_failed e, q) \<Longrightarrow>
   read_loop fd w =
     (if e \<noteq> EAGAIN
      then ([Sys_read fd (Read_failed e), Perror ''read''],
            Inr (w\<lparr>recv_queue := (recv_queue w)(fd := q)\<rparr>, True))
      else ([Sys_read fd (Read_failed e)],
            Inr (w\<lparr>recv_queue := (recv_queue w)(fd := q)\<rparr>, False)))"
  by (subst read_loop_step) (simp add: Let_def)

lemma read_loop_eof:
  "sys_read (recv_queue w fd) BUFSIZE = (Bytes [], q) \<Longrightarrow>
   read_loop fd w =
     ([Sys_read fd (Bytes [])], Inr (w\<lparr>recv_queue := (recv_queue w)(fd := q)\<rparr>, True))"
  by (subst read_loop_step) (simp add: Let_def)

lemma read_loop_chunk:
  "sys_read (recv_queue w fd) BUFSIZE = (Bytes bs, q) \<Longrightarrow> bs \<noteq> [] \<Longrightarrow>
   length bs < BUFSIZE \<Longrightarrow>
   read_loop fd w =
     emit [Sys_read fd (Bytes bs), Log_incoming fd (takeWhile (\<lambda>c. c \<noteq> NUL) bs)]
       (read_loop fd (w\<lparr>recv_queue := (recv_queue w)(fd := q)\<rparr>))"
  by (subst read_loop_step) (simp add: Let_def)

text \<open>
  Where no chunk fills the buffer the reader always returns, and it leaves such a world
  behind.
\<close>

lemma sys_read_short:
  assumes "\<forall>bs. Data bs \<in> set q0 \<longrightarrow> length bs < n" and "sys_read q0 n = (res, q)"
  shows "set q \<subseteq> set q0" and "res = Bytes bs \<Longrightarrow> bs \<noteq> [] \<Longrightarrow> length bs < n"
  using assms by (induction q0 n rule: sys_read.induct) (auto split: if_splits)

lemma read_loop_short:
  "short_reads w \<Longrightarrow>
   \<exists>tr w' b. read_loop fd w = (tr, Inr (w', b)) \<and> short_reads w' \<and>
     accept_queue w' = accept_queue w"
proof (induction "sum_list (map recv_size (recv_queue w fd))" arbitrary: w rule: less_induct)
  case less
  obtain res q where rd: "sys_read (recv_queue w fd) BUFSIZE = (res, q)"
    by (cases "sys_read (recv_queue w fd) BUFSIZE")
  define w' where "w' = w\<lparr>recv_queue := (recv_queue w)(fd := q)\<rparr>"
  from less.prems have short: "\<forall>bs. Data bs \<in> set (recv_queue w fd) \<longrightarrow> length bs < BUFSIZE"
    by (simp add: short_reads_def)
  from sys_read_short(1) [OF short rd] less.prems have w': "short_reads w'"
    by (auto simp: short_reads_def w'_def)
  have acc: "accept_queue w' = accept_queue w"
    by (simp add: w'_def)
  show ?case
  proof (cases res)
    case (Read_failed e)
    with rd have "read_loop fd w =
        (if e \<noteq> EAGAIN then ([Sys_read fd (Read_failed e), Perror ''read''], Inr (w', True))
         else ([Sys_read fd (Read_failed e)], Inr (w', False)))"
      by (simp add: read_loop_failed w'_def)
    with w' acc show ?thesis
      by (cases "e = EAGAIN") auto
  next
    case (Bytes bs)
    show ?thesis
    proof (cases "bs = []")
      case True
      with Bytes rd have "read_loop fd w = ([Sys_read fd (Bytes [])], Inr (w', True))"
        by (simp add: read_loop_eof w'_def)
      with w' acc show ?thesis
        by auto
    next
      case False
      with sys_read_short(2) [OF short rd] Bytes have len: "length bs < BUFSIZE"
        by simp
      have "sum_list (map recv_size (recv_queue w' fd)) < sum_list (map recv_size (recv_queue w fd))"
        using sys_read_smaller [of "recv_queue w fd" BUFSIZE bs q] rd Bytes False
        by (simp add: w'_def BUFSIZE_def)
      from less.hyps [OF this w'] obtain tr w'' b
        where IH: "read_loop fd w' = (tr, Inr (w'', b))" "short_reads w''"
          "accept_queue w'' = accept_queue w'"
        by blast
      from rd Bytes False len have "read_loop fd w =
          emit [Sys_read fd (Bytes bs), Log_incoming fd (takeWhile (\<lambda>c. c \<noteq> NUL) bs)]
            (read_loop fd w')"
        by (simp add: read_loop_chunk w'_def)
      with IH acc show ?thesis
        by (simp add: emit_def)
    qed
  qed
qed

lemma read_input_data_short:
  assumes "short_reads w"
  shows "\<exists>tr w'. read_input_data fd w = (tr, Inr w') \<and> short_reads w' \<and>
     accept_queue w' = accept_queue w"
proof -
  from read_loop_short [OF assms, of fd] obtain tr w' b
    where "read_loop fd w = (tr, Inr (w', b))" "short_reads w'" "accept_queue w' = accept_queue w"
    by blast
  then show ?thesis
    by (cases b) (simp_all add: read_input_data_def)
qed

text \<open>The reader creates no socket and closes no descriptor but its own.\<close>

lemma chunk_harmless: "is_chunk fd a \<Longrightarrow> \<not> is_socket a \<and> a \<noteq> Sys_close x"
  by (cases a) auto

lemma read_loop_actions:
  assumes "a \<in> set (fst (read_loop fd w))"
  shows "\<not> is_socket a \<and> a \<noteq> Sys_close x"
proof -
  from read_loop_shape [of fd w] obtain pre where pre: "list_all (is_chunk fd) pre"
    and "fst (read_loop fd w) = pre @ [Sys_read fd (Bytes [])] \<or>
      fst (read_loop fd w) = pre @ [Sys_read fd (Read_failed EAGAIN)] \<or>
      (\<exists>e. fst (read_loop fd w) = pre @ [Sys_read fd (Read_failed e), Perror ''read'']) \<or>
      (\<exists>bs. fst (read_loop fd w) = pre @ [Sys_read fd (Bytes bs)])"
    by force
  with assms have "a \<in> set pre \<or> (\<exists>r. a = Sys_read fd r) \<or> a = Perror ''read''"
    by auto
  with pre chunk_harmless [of fd a x] show ?thesis
    by (auto simp: list_all_iff)
qed

lemma read_input_data_actions:
  assumes "a \<in> set (fst (read_input_data fd w))"
  shows "\<not> is_socket a \<and> (a = Sys_close x \<longrightarrow> x = fd)"
proof -
  from assms have "a \<in> set (fst (read_loop fd w)) \<or> a = Log_closed fd \<or> a = Sys_close fd"
    by (auto simp: read_input_data_def split: prod.splits sum.splits if_splits)
  with read_loop_actions [of a fd w x] show ?thesis
    by auto
qed

text \<open>A chunk that reaches the size of the buffer ends the run in the out-of-bounds store.\<close>

lemma read_input_data_full:
  assumes "recv_queue w fd = Data bs # q" and "BUFSIZE \<le> length bs"
  shows "read_input_data fd w =
    ([Sys_read fd (Bytes (take BUFSIZE bs))], Inl (Out_of_bounds BUFSIZE BUFSIZE))"
proof -
  have "take BUFSIZE bs \<noteq> []"
    using assms(2) by (auto simp: BUFSIZE_def)
  moreover have "length (take BUFSIZE bs) = BUFSIZE"
    using assms(2) by simp
  ultimately have "read_loop fd w =
    ([Sys_read fd (Bytes (take BUFSIZE bs))], Inl (Out_of_bounds BUFSIZE BUFSIZE))"
    using assms by (subst read_loop_step) (auto simp: Let_def)
  then show ?thesis
    by (simp add: read_input_data_def)
qed

text \<open>Three runs worked out: an orderly shutdown, a reset, and a connection that stays open.\<close>

lemma ping_run:
  "read_input_data 5 ping_world =
     ([Sys_read 5 (Bytes ''ping''), Log_incoming 5 ''ping'', Sys_read 5 (Bytes []),
       Log_closed 5, Sys_close 5],
      Inr (ping_world\<lparr>recv_queue := (\<lambda>fd. [])\<rparr>))"
  by (simp add: read_input_data_def read_loop_step ping_world_def BUFSIZE_def NUL_def emit_def fun_eq_iff)

lemma reset_run:
  "read_input_data 5 reset_world =
     ([Sys_read 5 (Bytes ''hi''), Log_incoming 5 ''hi''] @
      Sys_read 5 (Read_failed 104) # [Perror ''read'', Log_closed 5, Sys_close 5],
      Inr (reset_world\<lparr>recv_queue := (\<lambda>fd. if fd = 5 then [] else [Data ''yo''])\<rparr>))"
  by (simp add: read_input_data_def read_loop_step reset_world_def BUFSIZE_def NUL_def emit_def
      EAGAIN_def fun_eq_iff)

lemma idle_run:
  "read_input_data 6 reset_world =
     ([Sys_read 6 (Bytes ''yo''), Log_incoming 6 ''yo''] @
      Sys_read 6 (Read_failed EAGAIN) # [],
      Inr (reset_world\<lparr>recv_queue := (\<lambda>fd. if fd = 5 then [Data ''hi'', Recv_error 104]
         else if fd = 6 then [] else [Data ''yo''])\<rparr>))"
  by (simp add: read_input_data_def read_loop_step reset_world_def BUFSIZE_def NUL_def emit_def
      fun_eq_iff)

lemma ping_run_split:
  "read_input_data 5 ping_world =
     ([Sys_read 5 (Bytes ''ping''), Log_incoming 5 ''ping''] @ Sys_read 5 (Bytes []) #
       [Log_closed 5, Sys_close 5],
      Inr (ping_world\<lparr>recv_queue := (\<lambda>fd. [])\<rparr>))"
  by (simp add: ping_run)

text \<open>The line logged for a chunk is a C string: it ends at the chunk's first zero byte.\<close>

lemma read_logs_c_string:
  "read_input_data 5 (ping_world\<lparr>recv_queue := (\<lambda>fd. [Data [CHR ''a'', NUL, CHR ''b'']])\<rparr>) =
     ([Sys_read 5 (Bytes [CHR ''a'', NUL, CHR ''b'']), Log_incoming 5 ''a'',
       Sys_read 5 (Read_failed EAGAIN)],
      Inr (ping_world\<lparr>recv_queue := (\<lambda>fd. if fd = 5 then [] else [Data [CHR ''a'', NUL, CHR ''b'']])\<rparr>))"
  by (simp add: read_input_data_def read_loop_step ping_world_def BUFSIZE_def NUL_def emit_def fun_eq_iff)

text \<open>
  \<^bold>\<open>C1\<close> (the code departs from the claim). The claim: a chunk that fills the 512-byte
  buffer exactly is logged with its precise length, and the drain routine never stores
  beyond the buffer, in particular no NUL past the end of a full buffer. The code: after
  a \<^verbatim>\<open>read\<close> that returns 512, \<^verbatim>\<open>buf[count] = 0\<close> stores to \<^verbatim>\<open>buf[512]\<close>, one cell past
  \<^verbatim>\<open>char buf[512]\<close>. With 512 bytes waiting on descriptor 5 the run ends in that store and
  nothing is logged.
\<close>

theorem full_buffer_store_out_of_bounds:
  "read_input_data 5 full_buffer_world =
     ([Sys_read 5 (Bytes (replicate 512 CHR ''a''))], Inl (Out_of_bounds 512 512))"
  using read_input_data_full [of full_buffer_world 5 "replicate 512 CHR ''a''" "[]"]
  by (simp add: full_buffer_world_def BUFSIZE_def)

text \<open>
  \<^bold>\<open>C3\<close> (the code departs from the claim). The claim: with exactly 1500 bytes waiting,
  one drain pass logs three chunks of 512, 512 and 476 bytes and stops at would-block.
  The code: the first \<^verbatim>\<open>read\<close> returns 512 bytes and fills the buffer, so the pass ends in
  the out-of-bounds store of C1 before anything is logged.
\<close>

theorem burst_1500_stops_at_first_chunk:
  "read_input_data 5 burst_world =
     ([Sys_read 5 (Bytes (replicate 512 NUL))], Inl (Out_of_bounds 512 512))"
  using read_input_data_full [of burst_world 5 "replicate 1500 NUL" "[]"]
  by (simp add: burst_world_def BUFSIZE_def)

text \<open>
  \<^bold>\<open>C4\<close>. For every run of \<^verbatim>\<open>read_input_data\<close> on a descriptor, with trace \<open>tr\<close>:
  a \<^verbatim>\<open>read\<close> that returns 0 is preceded by chunk iterations only, the loop stops there with
  the connection marked for closure, and the closure line and the \<^verbatim>\<open>close\<close> follow;
  a \<^verbatim>\<open>read\<close> that fails with \<^verbatim>\<open>EAGAIN\<close> is the last action of the run, and the connection
  is not marked; a \<^verbatim>\<open>read\<close> that fails with another error is followed by the diagnostic,
  the closure line and the \<^verbatim>\<open>close\<close>, with the connection marked. Whenever the loop
  leaves the connection marked, the closure line is logged and the descriptor is closed
  exactly once; whenever it leaves it unmarked, nothing is closed.
\<close>

theorem read_input_data_stops_and_closes:
  assumes run: "read_input_data fd w = (tr, res)"
  shows "(\<forall>pre post. tr = pre @ Sys_read fd (Bytes []) # post \<longrightarrow>
            list_all (is_chunk fd) pre \<and> post = [Log_closed fd, Sys_close fd] \<and>
            (\<exists>tr0 w'. read_loop fd w = (tr0, Inr (w', True)))) \<and>
         (\<forall>pre post. tr = pre @ Sys_read fd (Read_failed EAGAIN) # post \<longrightarrow>
            list_all (is_chunk fd) pre \<and> post = [] \<and>
            (\<exists>tr0 w'. read_loop fd w = (tr0, Inr (w', False)))) \<and>
         (\<forall>e pre post. e \<noteq> EAGAIN \<and> tr = pre @ Sys_read fd (Read_failed e) # post \<longrightarrow>
            list_all (is_chunk fd) pre \<and> post = [Perror ''read'', Log_closed fd, Sys_close fd] \<and>
            (\<exists>tr0 w'. read_loop fd w = (tr0, Inr (w', True)))) \<and>
         (\<forall>tr0 w'. read_loop fd w = (tr0, Inr (w', True)) \<longrightarrow>
            tr = tr0 @ [Log_closed fd, Sys_close fd] \<and> res = Inr w' \<and>
            count_list tr (Sys_close fd) = 1) \<and>
         (\<forall>tr0 w'. read_loop fd w = (tr0, Inr (w', False)) \<longrightarrow>
            tr = tr0 \<and> res = Inr w' \<and> (\<forall>x. Sys_close x \<notin> set tr))"
proof -
  from read_loop_shape [of fd w] obtain pre0 where pre0: "list_all (is_chunk fd) pre0"
    and alt: "(\<exists>w'. read_loop fd w = (pre0 @ [Sys_read fd (Bytes [])], Inr (w', True))) \<or>
      (\<exists>w'. read_loop fd w = (pre0 @ [Sys_read fd (Read_failed EAGAIN)], Inr (w', False))) \<or>
      (\<exists>w' e. e \<noteq> EAGAIN \<and>
         read_loop fd w = (pre0 @ [Sys_read fd (Read_failed e), Perror ''read''], Inr (w', True))) \<or>
      (\<exists>bs. length bs = BUFSIZE \<and>
         read_loop fd w = (pre0 @ [Sys_read fd (Bytes bs)], Inl (Out_of_bounds BUFSIZE BUFSIZE)))"
    by blast
  note no = chunks_no_end [OF pre0] count_list_chunks [OF pre0]
  from alt consider
      (eof) w' where "read_loop fd w = (pre0 @ [Sys_read fd (Bytes [])], Inr (w', True))"
    | (again) w' where "read_loop fd w = (pre0 @ [Sys_read fd (Read_failed EAGAIN)], Inr (w', False))"
    | (err) w' e where "e \<noteq> EAGAIN"
        "read_loop fd w = (pre0 @ [Sys_read fd (Read_failed e), Perror ''read''], Inr (w', True))"
    | (full) bs where "length bs = BUFSIZE"
        "read_loop fd w = (pre0 @ [Sys_read fd (Bytes bs)], Inl (Out_of_bounds BUFSIZE BUFSIZE))"
    by blast
  then show ?thesis
  proof cases
    case eof
    with run have tr: "tr = pre0 @ Sys_read fd (Bytes []) # [Log_closed fd, Sys_close fd]"
      and res: "res = Inr w'"
      by (auto simp: read_input_data_def)
    show ?thesis
      unfolding tr res eof using pre0 no
      by (auto simp: append_Cons_eq_iff append_eq_append_conv2 Cons_eq_append_conv append_eq_Cons_conv)
  next
    case again
    with run have tr: "tr = pre0 @ Sys_read fd (Read_failed EAGAIN) # []"
      and res: "res = Inr w'"
      by (auto simp: read_input_data_def)
    show ?thesis
      unfolding tr res again using pre0 no
      by (auto simp: append_Cons_eq_iff append_eq_append_conv2 Cons_eq_append_conv append_eq_Cons_conv)
  next
    case err
    with run have tr: "tr = pre0 @ Sys_read fd (Read_failed e) # [Perror ''read'', Log_closed fd, Sys_close fd]"
      and res: "res = Inr w'"
      by (auto simp: read_input_data_def)
    show ?thesis
      unfolding tr res err(2) using pre0 no err(1)
      by (auto simp: append_Cons_eq_iff append_eq_append_conv2 Cons_eq_append_conv append_eq_Cons_conv)
  next
    case full
    then have "bs \<noteq> []" by (auto simp: BUFSIZE_def)
    from full run have tr: "tr = pre0 @ [Sys_read fd (Bytes bs)]"
      by (auto simp: read_input_data_def)
    show ?thesis
      unfolding tr full(2) using pre0 no \<open>bs \<noteq> []\<close>
      by (auto simp: append_Cons_eq_iff append_eq_append_conv2 Cons_eq_append_conv append_eq_Cons_conv)
  qed
qed

theorem read_input_data_stops_and_closes_witness:
  "(read_input_data 5 ping_world =
      ([Sys_read 5 (Bytes ''ping''), Log_incoming 5 ''ping'', Sys_read 5 (Bytes []),
        Log_closed 5, Sys_close 5],
       Inr (ping_world\<lparr>recv_queue := (\<lambda>fd. [])\<rparr>)) \<and>
    (\<exists>tr0 w'. read_loop 5 ping_world = (tr0, Inr (w', True)))) \<and>
   (read_input_data 6 reset_world =
      ([Sys_read 6 (Bytes ''yo''), Log_incoming 6 ''yo'', Sys_read 6 (Read_failed EAGAIN)],
       Inr (reset_world\<lparr>recv_queue := (\<lambda>fd. if fd = 5 then [Data ''hi'', Recv_error 104]
         else if fd = 6 then [] else [Data ''yo''])\<rparr>)) \<and>
    (\<exists>tr0 w'. read_loop 6 reset_world = (tr0, Inr (w', False)))) \<and>
   ((104::int) \<noteq> EAGAIN \<and>
    read_input_data 5 reset_world =
      ([Sys_read 5 (Bytes ''hi''), Log_incoming 5 ''hi'', Sys_read 5 (Read_failed 104),
        Perror ''read'', Log_closed 5, Sys_close 5],
       Inr (reset_world\<lparr>recv_queue := (\<lambda>fd. if fd = 5 then [] else [Data ''yo''])\<rparr>)) \<and>
    (\<exists>tr0 w'. read_loop 5 reset_world = (tr0, Inr (w', True))))"
proof -
  have ne: "(104::int) \<noteq> EAGAIN"
    by (simp add: EAGAIN_def)
  from read_input_data_stops_and_closes [OF ping_run_split]
  have a: "\<exists>tr0 w'. read_loop 5 ping_world = (tr0, Inr (w', True))"
    by blast
  from read_input_data_stops_and_closes [OF idle_run]
  have b: "\<exists>tr0 w'. read_loop 6 reset_world = (tr0, Inr (w', False))"
    by blast
  from read_input_data_stops_and_closes [OF reset_run] ne
  have c: "\<exists>tr0 w'. read_loop 5 reset_world = (tr0, Inr (w', True))"
    by blast
  from a b c ne show ?thesis
    using ping_run idle_run reset_run by simp
qed

section \<open>Properties of the acceptor\<close>

lemma accept_empty:
  "accept_queue w = [] \<Longrightarrow>
   accept_new_connections efd server_fd w =
     ([Sys_accept server_fd (Accept_failed EAGAIN)], Inr (w\<lparr>accept_queue := []\<rparr>))"
  by (subst accept_new_connections.simps) simp

lemma accept_error:
  "accept_queue w = Accept_error e # q \<Longrightarrow>
   accept_new_connections efd server_fd w =
     ((if e = EAGAIN \<or> e = EWOULDBLOCK then [Sys_accept server_fd (Accept_failed e)]
       else [Sys_accept server_fd (Accept_failed e), Perror ''accept'']),
      Inr (w\<lparr>accept_queue := q\<rparr>))"
  by (subst accept_new_connections.simps) simp

lemma accept_pending:
  "accept_queue w = Pending c # q \<Longrightarrow>
   accept_new_connections efd server_fd w =
     (if registers c
      then emit (Sys_accept server_fd (Accepted c) # set_up_connection efd c)
             (accept_new_connections efd server_fd (w\<lparr>accept_queue := q\<rparr>))
      else (Sys_accept server_fd (Accepted c) # set_up_connection efd c @ [Perror ''epoll_ctl''],
            Inl (Runtime_error
              ''call to epoll_ctl failed (attempted to add new incoming connection)'')))"
  by (subst accept_new_connections.simps) simp

text \<open>Connections that register are accepted one after the other, and the loop goes on.\<close>

lemma accept_prefix:
  "list_all registers cs \<Longrightarrow> accept_queue w = map Pending cs @ rest \<Longrightarrow>
   accept_new_connections efd server_fd w =
     emit (accept_trace efd server_fd cs)
       (accept_new_connections efd server_fd (w\<lparr>accept_queue := rest\<rparr>))"
proof (induction cs arbitrary: w)
  case Nil
  then have "w\<lparr>accept_queue := rest\<rparr> = w" by simp
  then show ?case by (simp add: accept_trace_def emit_Nil)
next
  case (Cons c cs)
  let ?w = "w\<lparr>accept_queue := map Pending cs @ rest\<rparr>"
  from Cons.prems have "accept_new_connections efd server_fd w =
      emit (Sys_accept server_fd (Accepted c) # set_up_connection efd c)
        (accept_new_connections efd server_fd ?w)"
    by (simp add: accept_pending)
  also have "accept_new_connections efd server_fd ?w =
      emit (accept_trace efd server_fd cs)
        (accept_new_connections efd server_fd (?w\<lparr>accept_queue := rest\<rparr>))"
    using Cons.prems by (intro Cons.IH) simp_all
  finally show ?case
    by (simp add: emit_emit accept_trace_def)
qed

text \<open>
  Every queue is a run of connections that register, followed by nothing, by a failing
  \<^verbatim>\<open>accept\<close>, or by a connection that does not register.
\<close>

lemma queue_shape:
  "\<exists>cs. list_all registers cs \<and>
     (q = map Pending cs \<or>
      (\<exists>e q'. q = map Pending cs @ Accept_error e # q') \<or>
      (\<exists>c q'. \<not> registers c \<and> q = map Pending cs @ Pending c # q'))"
proof (induction q)
  case Nil
  show ?case by (rule exI [of _ "[]"]) simp
next
  case (Cons a q)
  show ?case
  proof (cases a)
    case (Accept_error e)
    then show ?thesis by (intro exI [of _ "[]"]) simp
  next
    case (Pending c)
    show ?thesis
    proof (cases "registers c")
      case False
      with Pending show ?thesis by (intro exI [of _ "[]"]) simp
    next
      case True
      from Cons.IH obtain cs where "list_all registers cs"
        and "q = map Pending cs \<or>
          (\<exists>e q'. q = map Pending cs @ Accept_error e # q') \<or>
          (\<exists>c q'. \<not> registers c \<and> q = map Pending cs @ Pending c # q')"
        by blast
      with True Pending show ?thesis
        by (intro exI [of _ "c # cs"]) auto
    qed
  qed
qed

text \<open>Where every waiting connection registers, the acceptor always returns.\<close>

lemma accept_registrable_aux:
  "accept_queue w = q \<Longrightarrow> registrable w \<Longrightarrow>
   \<exists>tr w'. accept_new_connections efd server_fd w = (tr, Inr w') \<and> registrable w' \<and>
     recv_queue w' = recv_queue w"
proof (induction q arbitrary: w)
  case Nil
  then have "accept_queue w = []"
    by simp
  then have "accept_new_connections efd server_fd w =
      ([Sys_accept server_fd (Accept_failed EAGAIN)], Inr (w\<lparr>accept_queue := []\<rparr>))"
    by (rule accept_empty)
  moreover have "registrable (w\<lparr>accept_queue := []\<rparr>)"
    by (simp add: registrable_def)
  ultimately show ?case by simp
next
  case (Cons a q)
  let ?w = "w\<lparr>accept_queue := q\<rparr>"
  from Cons.prems have reg: "registrable ?w"
    unfolding registrable_def by auto
  show ?case
  proof (cases a)
    case (Accept_error e)
    with Cons.prems(1) have "accept_queue w = Accept_error e # q"
      by simp
    then have "accept_new_connections efd server_fd w =
     ((if e = EAGAIN \<or> e = EWOULDBLOCK then [Sys_accept server_fd (Accept_failed e)]
       else [Sys_accept server_fd (Accept_failed e), Perror ''accept'']),
      Inr ?w)"
      by (rule accept_error)
    with reg show ?thesis by simp
  next
    case (Pending c)
    with Cons.prems(1) have "Pending c \<in> set (accept_queue w)"
      by simp
    with Cons.prems(2) have c: "registers c"
      unfolding registrable_def by blast
    have "accept_queue ?w = q" by simp
    from Cons.IH [OF this reg] obtain tr w'
      where IH: "accept_new_connections efd server_fd ?w = (tr, Inr w')" "registrable w'"
        "recv_queue w' = recv_queue ?w"
      by blast
    from Cons.prems(1) Pending have "accept_queue w = Pending c # q"
      by simp
    from accept_pending [OF this, of efd server_fd] c
    have "accept_new_connections efd server_fd w =
        emit (Sys_accept server_fd (Accepted c) # set_up_connection efd c)
          (accept_new_connections efd server_fd ?w)"
      by simp
    then have "accept_new_connections efd server_fd w =
        (Sys_accept server_fd (Accepted c) # set_up_connection efd c @ tr, Inr w')"
      by (simp only: IH(1) emit_def fst_conv snd_conv append_Cons)
    with IH(2,3) show ?thesis
      by simp
  qed
qed

lemma accept_registrable:
  "registrable w \<Longrightarrow>
   \<exists>tr w'. accept_new_connections efd server_fd w = (tr, Inr w') \<and> registrable w' \<and>
     recv_queue w' = recv_queue w"
  by (rule accept_registrable_aux [OF refl])

text \<open>The acceptor creates no socket and closes no descriptor.\<close>

lemma set_up_connection_actions:
  "a \<in> set (set_up_connection efd c) \<Longrightarrow> \<not> is_socket a \<and> a \<noteq> Sys_close x"
  by (auto simp: set_up_connection_def split: option.splits)

lemma accept_actions_aux:
  "accept_queue w = q \<Longrightarrow> a \<in> set (fst (accept_new_connections efd server_fd w)) \<Longrightarrow>
   \<not> is_socket a \<and> a \<noteq> Sys_close x"
proof (induction q arbitrary: w)
  case Nil
  then show ?case
    by (simp add: accept_empty)
next
  case (Cons i q)
  show ?case
  proof (cases i)
    case (Accept_error e)
    with Cons.prems show ?thesis
      by (auto simp: accept_error [where q = q] split: if_splits)
  next
    case (Pending c)
    with Cons.prems(1) have aq: "accept_queue w = Pending c # q"
      by simp
    let ?w = "w\<lparr>accept_queue := q\<rparr>"
    from Cons.prems(2) have "a = Sys_accept server_fd (Accepted c) \<or>
        a \<in> set (set_up_connection efd c) \<or> a = Perror ''epoll_ctl'' \<or>
        a \<in> set (fst (accept_new_connections efd server_fd ?w))"
      by (auto simp: accept_pending [OF aq] emit_def split: if_splits)
    moreover have "accept_queue ?w = q" by simp
    note Cons.IH [OF this]
    ultimately show ?thesis
      using set_up_connection_actions [of a efd c x] by auto
  qed
qed

lemma accept_actions:
  "a \<in> set (fst (accept_new_connections efd server_fd w)) \<Longrightarrow>
   \<not> is_socket a \<and> a \<noteq> Sys_close x"
  by (rule accept_actions_aux [OF refl])

text \<open>
  \<^bold>\<open>C5\<close>. A run of \<^verbatim>\<open>accept_new_connections\<close> accepts the waiting connections one after
  the other. For each of them it sets the new descriptor non-blocking and then registers
  it with \<^verbatim>\<open>epoll_ctl\<close> for \<^verbatim>\<open>EPOLLIN | EPOLLET\<close> (readable, edge-triggered). When \<^verbatim>\<open>accept\<close>
  fails with \<^verbatim>\<open>EAGAIN\<close> or \<^verbatim>\<open>EWOULDBLOCK\<close> (in particular when the queue is empty) the run
  stops there and returns normally, without a diagnostic. When \<^verbatim>\<open>accept\<close> fails with
  another error the run logs \<^verbatim>\<open>perror("accept")\<close>, stops and returns normally. (The one
  other way a run ends, a registration that fails, is the fourth conjunct; see C2.)
\<close>

theorem accept_new_connections_drains:
  "list_all registers cs \<Longrightarrow>
   (accept_queue w = map Pending cs \<longrightarrow>
      accept_new_connections efd server_fd w =
        (accept_trace efd server_fd cs @ [Sys_accept server_fd (Accept_failed EAGAIN)],
         Inr (w\<lparr>accept_queue := []\<rparr>))) \<and>
   (accept_queue w = map Pending cs @ Accept_error e # q \<and> (e = EAGAIN \<or> e = EWOULDBLOCK) \<longrightarrow>
      accept_new_connections efd server_fd w =
        (accept_trace efd server_fd cs @ [Sys_accept server_fd (Accept_failed e)],
         Inr (w\<lparr>accept_queue := q\<rparr>))) \<and>
   (accept_queue w = map Pending cs @ Accept_error e # q \<and> e \<noteq> EAGAIN \<and> e \<noteq> EWOULDBLOCK \<longrightarrow>
      accept_new_connections efd server_fd w =
        (accept_trace efd server_fd cs @ [Sys_accept server_fd (Accept_failed e), Perror ''accept''],
         Inr (w\<lparr>accept_queue := q\<rparr>))) \<and>
   (accept_queue w = map Pending cs @ Pending c # q \<and> \<not> registers c \<longrightarrow>
      accept_new_connections efd server_fd w =
        (accept_trace efd server_fd cs @
           Sys_accept server_fd (Accepted c) # set_up_connection efd c @ [Perror ''epoll_ctl''],
         Inl (Runtime_error
           ''call to epoll_ctl failed (attempted to add new incoming connection)''))) \<and>
   (\<forall>c \<in> set (c # cs). \<exists>pre.
      set_up_connection efd c =
        pre @ [Set_nonblocking (conn_fd c), Sys_epoll_ctl_add efd (conn_fd c) (EPOLLIN OR EPOLLET)]) \<and>
   (EPOLLIN OR EPOLLET) AND EPOLLIN = EPOLLIN \<and> (EPOLLIN OR EPOLLET) AND EPOLLET = EPOLLET"
proof (intro conjI impI ballI)
  assume cs: "list_all registers cs"
  { assume q: "accept_queue w = map Pending cs"
    then have "accept_queue w = map Pending cs @ []" by simp
    from accept_prefix [OF cs this]
    show "accept_new_connections efd server_fd w =
        (accept_trace efd server_fd cs @ [Sys_accept server_fd (Accept_failed EAGAIN)],
         Inr (w\<lparr>accept_queue := []\<rparr>))"
      by (simp add: accept_empty emit_def) }
  { assume "accept_queue w = map Pending cs @ Accept_error e # q \<and> (e = EAGAIN \<or> e = EWOULDBLOCK)"
    then have q: "accept_queue w = map Pending cs @ Accept_error e # q"
      and e: "e = EAGAIN \<or> e = EWOULDBLOCK" by simp_all
    from accept_prefix [OF cs q] e
    show "accept_new_connections efd server_fd w =
        (accept_trace efd server_fd cs @ [Sys_accept server_fd (Accept_failed e)],
         Inr (w\<lparr>accept_queue := q\<rparr>))"
      by (simp add: accept_error [where q = q] emit_def) }
  { assume "accept_queue w = map Pending cs @ Accept_error e # q \<and> e \<noteq> EAGAIN \<and> e \<noteq> EWOULDBLOCK"
    then have q: "accept_queue w = map Pending cs @ Accept_error e # q"
      and e: "\<not> (e = EAGAIN \<or> e = EWOULDBLOCK)" by simp_all
    from accept_prefix [OF cs q] e
    show "accept_new_connections efd server_fd w =
        (accept_trace efd server_fd cs @ [Sys_accept server_fd (Accept_failed e), Perror ''accept''],
         Inr (w\<lparr>accept_queue := q\<rparr>))"
      by (simp add: accept_error [where q = q] emit_def) }
  { assume "accept_queue w = map Pending cs @ Pending c # q \<and> \<not> registers c"
    then have q: "accept_queue w = map Pending cs @ Pending c # q"
      and c: "\<not> registers c" by simp_all
    from accept_prefix [OF cs q] c
    show "accept_new_connections efd server_fd w =
        (accept_trace efd server_fd cs @
           Sys_accept server_fd (Accepted c) # set_up_connection efd c @ [Perror ''epoll_ctl''],
         Inl (Runtime_error
           ''call to epoll_ctl failed (attempted to add new incoming connection)''))"
      by (simp add: accept_pending [where q = q] emit_def) }
  { fix c
    show "\<exists>pre. set_up_connection efd c =
        pre @ [Set_nonblocking (conn_fd c), Sys_epoll_ctl_add efd (conn_fd c) (EPOLLIN OR EPOLLET)]"
      by (simp add: set_up_connection_def split: option.splits) }
  show "(EPOLLIN OR EPOLLET) AND EPOLLIN = EPOLLIN"
    by (simp add: EPOLLIN_def EPOLLET_def)
  show "(EPOLLIN OR EPOLLET) AND EPOLLET = EPOLLET"
    by (simp add: EPOLLIN_def EPOLLET_def)
qed

theorem accept_new_connections_drains_witness:
  "list_all registers [alice, bob] \<and>
   accept_new_connections 4 3 (quiet_world\<lparr>accept_queue := [Pending alice, Pending bob]\<rparr>) =
     ([Sys_accept 3 (Accepted alice), Sys_setsockopt_reuseport 5,
       Log_accepted ''10.0.0.1'' ''40000'' 5, Set_nonblocking 5,
       Sys_epoll_ctl_add 4 5 (EPOLLIN OR EPOLLET),
       Sys_accept 3 (Accepted bob), Sys_setsockopt_reuseport 6, Set_nonblocking 6,
       Sys_epoll_ctl_add 4 6 (EPOLLIN OR EPOLLET),
       Sys_accept 3 (Accept_failed EAGAIN)],
      Inr quiet_world) \<and>
   accept_new_connections 4 3
       (quiet_world\<lparr>accept_queue := [Pending alice, Pending bob, Accept_error 24, Pending carol]\<rparr>) =
     ([Sys_accept 3 (Accepted alice), Sys_setsockopt_reuseport 5,
       Log_accepted ''10.0.0.1'' ''40000'' 5, Set_nonblocking 5,
       Sys_epoll_ctl_add 4 5 (EPOLLIN OR EPOLLET),
       Sys_accept 3 (Accepted bob), Sys_setsockopt_reuseport 6, Set_nonblocking 6,
       Sys_epoll_ctl_add 4 6 (EPOLLIN OR EPOLLET),
       Sys_accept 3 (Accept_failed 24), Perror ''accept''],
      Inr (quiet_world\<lparr>accept_queue := [Pending carol]\<rparr>))"
proof -
  have cs: "list_all registers [alice, bob]"
    by (simp add: alice_def bob_def)
  have e: "(24::int) \<noteq> EAGAIN \<and> (24::int) \<noteq> EWOULDBLOCK"
    by (simp add: EAGAIN_def EWOULDBLOCK_def)
  from accept_new_connections_drains [OF cs,
      where w = "quiet_world\<lparr>accept_queue := [Pending alice, Pending bob]\<rparr>"
        and efd = 4 and server_fd = 3]
    accept_new_connections_drains [OF cs,
      where w = "quiet_world\<lparr>accept_queue :=
          [Pending alice, Pending bob, Accept_error 24, Pending carol]\<rparr>"
        and e = 24 and q = "[Pending carol]" and efd = 4 and server_fd = 3] cs e
  show ?thesis
    by (simp add: accept_trace_def set_up_connection_def alice_def bob_def quiet_world_def)
qed

text \<open>
  \<^bold>\<open>C9\<close>. When \<^verbatim>\<open>getnameinfo\<close> fails for an accepted connection, the acceptor still sets
  the descriptor non-blocking and registers it, and goes on as for any other connection:
  its actions are those of a connection whose address could be printed, without the
  ``accepted incoming connection'' line.
\<close>

theorem accept_without_peer_name:
  "accept_queue w = Pending c # q \<Longrightarrow>
   (peer c = None \<longrightarrow>
      accept_new_connections efd server_fd w =
        (if registers c
         then emit [Sys_accept server_fd (Accepted c), Sys_setsockopt_reuseport (conn_fd c),
                    Set_nonblocking (conn_fd c),
                    Sys_epoll_ctl_add efd (conn_fd c) (EPOLLIN OR EPOLLET)]
                (accept_new_connections efd server_fd (w\<lparr>accept_queue := q\<rparr>))
         else ([Sys_accept server_fd (Accepted c), Sys_setsockopt_reuseport (conn_fd c),
                Set_nonblocking (conn_fd c),
                Sys_epoll_ctl_add efd (conn_fd c) (EPOLLIN OR EPOLLET), Perror ''epoll_ctl''],
               Inl (Runtime_error
                 ''call to epoll_ctl failed (attempted to add new incoming connection)'')))) \<and>
   (\<forall>hbuf sbuf. peer c = Some (hbuf, sbuf) \<longrightarrow>
      accept_new_connections efd server_fd w =
        (if registers c
         then emit [Sys_accept server_fd (Accepted c), Sys_setsockopt_reuseport (conn_fd c),
                    Log_accepted hbuf sbuf (conn_fd c), Set_nonblocking (conn_fd c),
                    Sys_epoll_ctl_add efd (conn_fd c) (EPOLLIN OR EPOLLET)]
                (accept_new_connections efd server_fd (w\<lparr>accept_queue := q\<rparr>))
         else ([Sys_accept server_fd (Accepted c), Sys_setsockopt_reuseport (conn_fd c),
                Log_accepted hbuf sbuf (conn_fd c), Set_nonblocking (conn_fd c),
                Sys_epoll_ctl_add efd (conn_fd c) (EPOLLIN OR EPOLLET), Perror ''epoll_ctl''],
               Inl (Runtime_error
                 ''call to epoll_ctl failed (attempted to add new incoming connection)''))))"
  by (simp add: accept_pending set_up_connection_def)

theorem accept_without_peer_name_witness:
  "peer bob = None \<and> registers bob \<and>
   accept_new_connections 4 3 (quiet_world\<lparr>accept_queue := [Pending bob]\<rparr>) =
     ([Sys_accept 3 (Accepted bob), Sys_setsockopt_reuseport 6, Set_nonblocking 6,
       Sys_epoll_ctl_add 4 6 (EPOLLIN OR EPOLLET), Sys_accept 3 (Accept_failed EAGAIN)],
      Inr quiet_world) \<and>
   peer alice = Some (''10.0.0.1'', ''40000'') \<and> registers alice \<and>
   accept_new_connections 4 3 (quiet_world\<lparr>accept_queue := [Pending alice]\<rparr>) =
     ([Sys_accept 3 (Accepted alice), Sys_setsockopt_reuseport 5,
       Log_accepted ''10.0.0.1'' ''40000'' 5, Set_nonblocking 5,
       Sys_epoll_ctl_add 4 5 (EPOLLIN OR EPOLLET), Sys_accept 3 (Accept_failed EAGAIN)],
      Inr quiet_world)"
  using accept_without_peer_name [of "quiet_world\<lparr>accept_queue := [Pending bob]\<rparr>" bob "[]" 4 3]
    accept_without_peer_name [of "quiet_world\<lparr>accept_queue := [Pending alice]\<rparr>" alice "[]" 4 3]
  by (simp add: accept_empty emit_def alice_def bob_def quiet_world_def)

section \<open>Properties of the reactor\<close>

lemma for_events_Cons:
  "for_events server_fd efd w (event # later) =
     and_then (handle_event server_fd efd w event) (\<lambda>w'. for_events server_fd efd w' later)"
  by (auto simp: and_then_def split: prod.splits sum.splits)

lemma for_events_append:
  "for_events server_fd efd w (xs @ ys) =
     and_then (for_events server_fd efd w xs) (\<lambda>w'. for_events server_fd efd w' ys)"
proof (induction xs arbitrary: w)
  case Nil
  show ?case by (simp add: and_then_Inr emit_Nil)
next
  case (Cons x xs)
  show ?case
    by (simp only: append_Cons for_events_Cons Cons.IH and_then_assoc)
qed

lemma event_loop_empty: "event_loop server_fd efd [] w = ([], Inr w)"
  by (subst event_loop.simps) simp

lemma event_loop_error:
  "event_loop server_fd efd (Wait_error e # sched) w =
     emit [Sys_epoll_wait efd (Wait_failed e)] (event_loop server_fd efd sched w)"
  by (subst event_loop.simps) simp

lemma event_loop_ready:
  "length evs \<le> MAX_EVENTS \<Longrightarrow>
   event_loop server_fd efd (Ready evs # sched) w =
     emit [Sys_epoll_wait efd (Events evs)]
       (and_then (for_events server_fd efd w evs) (\<lambda>w'. event_loop server_fd efd sched w'))"
  by (subst event_loop.simps) (auto simp: and_then_def emit_def split: prod.splits sum.splits)

lemma event_loop_more:
  "MAX_EVENTS < length evs \<Longrightarrow>
   event_loop server_fd efd (Ready evs # sched) w =
     emit [Sys_epoll_wait efd (Events (take MAX_EVENTS evs))]
       (and_then (for_events server_fd efd w (take MAX_EVENTS evs))
          (\<lambda>w'. event_loop server_fd efd (Ready (drop MAX_EVENTS evs) # sched) w'))"
  by (subst event_loop.simps) (auto simp: and_then_def emit_def split: prod.splits sum.splits)

lemma sys_epoll_wait_bound:
  "sys_epoll_wait sched n = Some (Events evs, sched') \<Longrightarrow> length evs \<le> n"
  by (induction sched n rule: sys_epoll_wait.induct) (auto split: if_splits)

lemma abnormal_hung_up: "abnormal (hung_up fd)"
  by (simp add: abnormal_def hung_up_def EPOLLIN_def EPOLLHUP_def)

lemma normal_readable: "\<not> abnormal (readable fd)"
  by (simp add: abnormal_def readable_def EPOLLIN_def EPOLLHUP_def EPOLLERR_def)

lemma handle_abnormal:
  "abnormal event \<Longrightarrow>
   handle_event server_fd efd w event = ([Perror ''epoll error'', Sys_close (data_fd event)], Inr w)"
  by (simp add: handle_event_def)

lemma for_events_replicate:
  "abnormal event \<Longrightarrow>
   for_events server_fd efd w (replicate n event) =
     (concat (replicate n [Perror ''epoll error'', Sys_close (data_fd event)]), Inr w)"
  by (induction n) (simp_all add: handle_abnormal emit_def)

lemma data_fd_examples: "data_fd (readable fd) = fd" "data_fd (hung_up fd) = fd"
  by (simp_all add: readable_def hung_up_def)

lemma ping_world_drained: "ping_world\<lparr>recv_queue := (\<lambda>fd. [])\<rparr> = quiet_world"
  by (simp add: ping_world_def quiet_world_def)

lemma ping_world_accepting:
  "accept_queue ping_world = []" "ping_world\<lparr>accept_queue := []\<rparr> = ping_world"
  by (simp_all add: ping_world_def)

lemma busy_batch:
  "for_events 3 4 (ping_world\<lparr>accept_queue := [Pending alice]\<rparr>)
      [hung_up 9, readable 3, readable 5] =
     ([Perror ''epoll error'', Sys_close 9,
       Sys_accept 3 (Accepted alice), Sys_setsockopt_reuseport 5,
       Log_accepted ''10.0.0.1'' ''40000'' 5, Set_nonblocking 5,
       Sys_epoll_ctl_add 4 5 (EPOLLIN OR EPOLLET), Sys_accept 3 (Accept_failed EAGAIN),
       Sys_read 5 (Bytes ''ping''), Log_incoming 5 ''ping'', Sys_read 5 (Bytes []),
       Log_closed 5, Sys_close 5],
      Inr quiet_world)"
proof -
  let ?w = "ping_world\<lparr>accept_queue := [Pending alice]\<rparr>"
  have 1: "handle_event 3 4 ?w (hung_up 9) = ([Perror ''epoll error'', Sys_close 9], Inr ?w)"
    by (simp add: handle_abnormal abnormal_hung_up data_fd_examples)
  have "accept_new_connections 4 3 ?w =
      ([Sys_accept 3 (Accepted alice), Sys_setsockopt_reuseport 5,
        Log_accepted ''10.0.0.1'' ''40000'' 5, Set_nonblocking 5,
        Sys_epoll_ctl_add 4 5 (EPOLLIN OR EPOLLET), Sys_accept 3 (Accept_failed EAGAIN)],
       Inr ping_world)"
    by (simp add: accept_pending [where q = "[]"] accept_empty emit_def ping_world_accepting)
      (simp add: set_up_connection_def alice_def)
  then have 2: "handle_event 3 4 ?w (readable 3) =
      ([Sys_accept 3 (Accepted alice), Sys_setsockopt_reuseport 5,
        Log_accepted ''10.0.0.1'' ''40000'' 5, Set_nonblocking 5,
        Sys_epoll_ctl_add 4 5 (EPOLLIN OR EPOLLET), Sys_accept 3 (Accept_failed EAGAIN)],
       Inr ping_world)"
    by (simp add: handle_event_def normal_readable data_fd_examples)
  have 3: "handle_event 3 4 ping_world (readable 5) =
      ([Sys_read 5 (Bytes ''ping''), Log_incoming 5 ''ping'', Sys_read 5 (Bytes []),
        Log_closed 5, Sys_close 5], Inr quiet_world)"
    by (simp add: handle_event_def normal_readable data_fd_examples ping_run ping_world_drained)
  show ?thesis
    by (simp add: 1 2 3 emit_def)
qed

text \<open>In a steady world the loop is never stopped.\<close>

lemma handle_event_steady:
  assumes "steady w"
  shows "\<exists>tr w'. handle_event server_fd efd w event = (tr, Inr w') \<and> steady w'"
proof -
  from assms have reg: "registrable w" and short: "short_reads w"
    by (simp_all add: steady_def)
  from read_input_data_short [OF short, of "data_fd event"] obtain tr w'
    where r: "read_input_data (data_fd event) w = (tr, Inr w')" "short_reads w'"
      "accept_queue w' = accept_queue w"
    by blast
  with reg have r': "steady w'"
    by (simp add: steady_def registrable_def)
  from accept_registrable [OF reg, of efd server_fd] obtain tr2 w2
    where a: "accept_new_connections efd server_fd w = (tr2, Inr w2)" "registrable w2"
      "recv_queue w2 = recv_queue w"
    by blast
  with short have a': "steady w2"
    by (simp add: steady_def short_reads_def)
  from r(1) r' a(1) a' assms show ?thesis
    by (auto simp: handle_event_def)
qed

lemma for_events_steady:
  "steady w \<Longrightarrow> \<exists>tr w'. for_events server_fd efd w evs = (tr, Inr w') \<and> steady w'"
proof (induction evs arbitrary: w)
  case Nil
  then show ?case by simp
next
  case (Cons event evs)
  from handle_event_steady [OF Cons.prems] obtain tr w'
    where h: "handle_event server_fd efd w event = (tr, Inr w')" and "steady w'"
    by blast
  from Cons.IH [OF this(2)] obtain tr' w''
    where "for_events server_fd efd w' evs = (tr', Inr w'')" "steady w''"
    by blast
  with h show ?case by (simp add: emit_def)
qed

lemma event_loop_steady:
  "steady w \<Longrightarrow> \<exists>tr w'. event_loop server_fd efd sched w = (tr, Inr w') \<and> steady w'"
proof (induction "sum_list (map wait_size sched)" arbitrary: sched w rule: less_induct)
  case less
  show ?case
  proof (cases sched)
    case Nil
    with less.prems show ?thesis by (simp add: event_loop_empty)
  next
    case (Cons item rest)
    show ?thesis
    proof (cases item)
      case (Wait_error e)
      with Cons have "sum_list (map wait_size rest) < sum_list (map wait_size sched)"
        by simp
      from less.hyps [OF this less.prems] Cons Wait_error show ?thesis
        by (auto simp: event_loop_error emit_def)
    next
      case (Ready evs)
      show ?thesis
      proof (cases "length evs \<le> MAX_EVENTS")
        case True
        from for_events_steady [OF less.prems] obtain tr w'
          where f: "for_events server_fd efd w evs = (tr, Inr w')" and w': "steady w'"
          by blast
        from Cons Ready have "sum_list (map wait_size rest) < sum_list (map wait_size sched)"
          by simp
        from less.hyps [OF this w'] Cons Ready True f show ?thesis
          by (auto simp: event_loop_ready and_then_Inr emit_def)
      next
        case False
        then have more: "MAX_EVENTS < length evs" by simp
        from for_events_steady [OF less.prems] obtain tr w'
          where f: "for_events server_fd efd w (take MAX_EVENTS evs) = (tr, Inr w')"
            and w': "steady w'"
          by blast
        from Cons Ready more
        have "sum_list (map wait_size (Ready (drop MAX_EVENTS evs) # rest)) <
            sum_list (map wait_size sched)"
          by (simp add: MAX_EVENTS_def)
        from less.hyps [OF this w'] Cons Ready f show ?thesis
          by (auto simp: event_loop_more [OF more] and_then_Inr emit_def)
      qed
    qed
  qed
qed

text \<open>
  The loop creates no socket, and a descriptor it closes is the descriptor of an event
  it was given: of an abnormal one, or of one that is not the listening socket's.
\<close>

lemma handle_event_actions:
  assumes "a \<in> set (fst (handle_event server_fd efd w event))"
  shows "\<not> is_socket a \<and>
    (a = Sys_close x \<longrightarrow> data_fd event = x \<and> (abnormal event \<or> x \<noteq> server_fd))"
proof (cases "abnormal event")
  case True
  with assms show ?thesis
    by (auto simp: handle_event_def)
next
  case False
  show ?thesis
  proof (cases "server_fd = data_fd event")
    case True
    with False assms have "a \<in> set (fst (accept_new_connections efd server_fd w))"
      by (simp add: handle_event_def)
    from accept_actions [OF this, of x] show ?thesis
      by simp
  next
    case neq: False
    with False assms have "a \<in> set (fst (read_input_data (data_fd event) w))"
      by (simp add: handle_event_def)
    from read_input_data_actions [OF this, of x] neq show ?thesis
      by auto
  qed
qed

lemma for_events_actions:
  "a \<in> set (fst (for_events server_fd efd w evs)) \<Longrightarrow>
   \<not> is_socket a \<and>
   (a = Sys_close x \<longrightarrow>
      (\<exists>event \<in> set evs. data_fd event = x \<and> (abnormal event \<or> x \<noteq> server_fd)))"
proof (induction evs arbitrary: w)
  case Nil
  then show ?case by simp
next
  case (Cons event evs)
  from Cons.prems have "a \<in> set (fst (handle_event server_fd efd w event)) \<or>
      (\<exists>w'. a \<in> set (fst (for_events server_fd efd w' evs)))"
    by (auto simp: emit_def split: prod.splits sum.splits)
  then show ?case
  proof
    assume "a \<in> set (fst (handle_event server_fd efd w event))"
    from handle_event_actions [OF this, of x] show ?thesis
      by auto
  next
    assume "\<exists>w'. a \<in> set (fst (for_events server_fd efd w' evs))"
    then obtain w' where "a \<in> set (fst (for_events server_fd efd w' evs))" ..
    from Cons.IH [OF this] show ?thesis
      by auto
  qed
qed

lemma and_then_actions:
  "a \<in> set (fst (and_then r f)) \<Longrightarrow> a \<in> set (fst r) \<or> (\<exists>x. a \<in> set (fst (f x)))"
  by (cases r) (auto simp: and_then_def emit_def split: sum.splits)

lemma event_loop_actions:
  "a \<in> set (fst (event_loop server_fd efd sched w)) \<Longrightarrow>
   \<not> is_socket a \<and>
   (a = Sys_close x \<longrightarrow>
      (\<exists>evs event. Ready evs \<in> set sched \<and> event \<in> set evs \<and> data_fd event = x \<and>
         (abnormal event \<or> x \<noteq> server_fd)))"
proof (induction "sum_list (map wait_size sched)" arbitrary: sched w rule: less_induct)
  case less
  show ?case
  proof (cases sched)
    case Nil
    with less.prems show ?thesis by (simp add: event_loop_empty)
  next
    case (Cons item rest)
    show ?thesis
    proof (cases item)
      case (Wait_error e)
      with Cons have smaller: "sum_list (map wait_size rest) < sum_list (map wait_size sched)"
        by simp
      from less.prems Cons Wait_error
      have "a = Sys_epoll_wait efd (Wait_failed e) \<or>
          a \<in> set (fst (event_loop server_fd efd rest w))"
        by (auto simp: event_loop_error emit_def)
      with less.hyps [OF smaller, of w] Cons show ?thesis
        by auto
    next
      case (Ready evs)
      show ?thesis
      proof (cases "length evs \<le> MAX_EVENTS")
        case True
        from Cons Ready have smaller: "sum_list (map wait_size rest) < sum_list (map wait_size sched)"
          by simp
        from less.prems Cons Ready True
        have "a = Sys_epoll_wait efd (Events evs) \<or>
            a \<in> set (fst (for_events server_fd efd w evs)) \<or>
            (\<exists>w'. a \<in> set (fst (event_loop server_fd efd rest w')))"
          using and_then_actions [of a "for_events server_fd efd w evs"
              "\<lambda>w'. event_loop server_fd efd rest w'"]
          by (auto simp: event_loop_ready emit_def)
        then consider "a = Sys_epoll_wait efd (Events evs)"
          | "a \<in> set (fst (for_events server_fd efd w evs))"
          | w' where "a \<in> set (fst (event_loop server_fd efd rest w'))"
          by blast
        then show ?thesis
        proof cases
          case 1
          then show ?thesis by simp
        next
          case 2
          from for_events_actions [OF this, of x] Cons Ready show ?thesis
            by auto
        next
          case 3
          from less.hyps [OF smaller this] Cons show ?thesis
            by auto
        qed
      next
        case False
        then have more: "MAX_EVENTS < length evs" by simp
        let ?sched = "Ready (drop MAX_EVENTS evs) # rest"
        from Cons Ready more
        have smaller: "sum_list (map wait_size ?sched) < sum_list (map wait_size sched)"
          by (simp add: MAX_EVENTS_def)
        from less.prems Cons Ready
        have "a = Sys_epoll_wait efd (Events (take MAX_EVENTS evs)) \<or>
            a \<in> set (fst (for_events server_fd efd w (take MAX_EVENTS evs))) \<or>
            (\<exists>w'. a \<in> set (fst (event_loop server_fd efd ?sched w')))"
          using and_then_actions [of a "for_events server_fd efd w (take MAX_EVENTS evs)"
              "\<lambda>w'. event_loop server_fd efd ?sched w'"]
          by (auto simp: event_loop_more [OF more] emit_def)
        then consider "a = Sys_epoll_wait efd (Events (take MAX_EVENTS evs))"
          | "a \<in> set (fst (for_events server_fd efd w (take MAX_EVENTS evs)))"
          | w' where "a \<in> set (fst (event_loop server_fd efd ?sched w'))"
          by blast
        then show ?thesis
        proof cases
          case 1
          then show ?thesis by simp
        next
          case 2
          from for_events_actions [OF this, of x] Cons Ready show ?thesis
            by (auto dest: in_set_takeD)
        next
          case 3
          from less.hyps [OF smaller this] Cons Ready show ?thesis
            by (auto dest: in_set_dropD)
        qed
      qed
    qed
  qed
qed

text \<open>
  \<^bold>\<open>C7\<close>. The events of one batch are handled in the order \<^verbatim>\<open>epoll_wait\<close> returned them:
  an event is handled in the world its predecessors left and before any of its
  successors, and the whole batch before the next \<^verbatim>\<open>epoll_wait\<close>. An event whose mask has
  \<^verbatim>\<open>EPOLLERR\<close> or \<^verbatim>\<open>EPOLLHUP\<close>, or lacks \<^verbatim>\<open>EPOLLIN\<close>, makes the loop close its descriptor and
  do nothing else for it; any other event on the listening socket runs the acceptor, and
  on any other descriptor the reader.
\<close>

theorem events_handled_in_order:
  "for_events server_fd efd w (before @ event # after) =
     and_then (for_events server_fd efd w before) (\<lambda>w1.
       and_then (handle_event server_fd efd w1 event) (\<lambda>w2.
         for_events server_fd efd w2 after)) \<and>
   (length evs \<le> MAX_EVENTS \<longrightarrow>
      event_loop server_fd efd (Ready evs # sched) w =
        emit [Sys_epoll_wait efd (Events evs)]
          (and_then (for_events server_fd efd w evs) (\<lambda>w'. event_loop server_fd efd sched w'))) \<and>
   (events event AND EPOLLERR \<noteq> 0 \<or> events event AND EPOLLHUP \<noteq> 0 \<or>
    events event AND EPOLLIN = 0 \<longrightarrow>
      handle_event server_fd efd w event =
        ([Perror ''epoll error'', Sys_close (data_fd event)], Inr w)) \<and>
   (events event AND EPOLLERR = 0 \<and> events event AND EPOLLHUP = 0 \<and>
    events event AND EPOLLIN \<noteq> 0 \<longrightarrow>
      handle_event server_fd efd w event =
        (if data_fd event = server_fd then accept_new_connections efd server_fd w
         else read_input_data (data_fd event) w))"
proof (intro conjI impI)
  show "for_events server_fd efd w (before @ event # after) =
     and_then (for_events server_fd efd w before) (\<lambda>w1.
       and_then (handle_event server_fd efd w1 event) (\<lambda>w2.
         for_events server_fd efd w2 after))"
    by (simp only: for_events_append for_events_Cons)
next
  assume "length evs \<le> MAX_EVENTS"
  then show "event_loop server_fd efd (Ready evs # sched) w =
        emit [Sys_epoll_wait efd (Events evs)]
          (and_then (for_events server_fd efd w evs) (\<lambda>w'. event_loop server_fd efd sched w'))"
    by (rule event_loop_ready)
next
  assume "events event AND EPOLLERR \<noteq> 0 \<or> events event AND EPOLLHUP \<noteq> 0 \<or>
    events event AND EPOLLIN = 0"
  then show "handle_event server_fd efd w event =
        ([Perror ''epoll error'', Sys_close (data_fd event)], Inr w)"
    by (simp add: handle_event_def abnormal_def)
next
  assume "events event AND EPOLLERR = 0 \<and> events event AND EPOLLHUP = 0 \<and>
    events event AND EPOLLIN \<noteq> 0"
  then show "handle_event server_fd efd w event =
        (if data_fd event = server_fd then accept_new_connections efd server_fd w
         else read_input_data (data_fd event) w)"
    by (auto simp: handle_event_def abnormal_def)
qed

theorem events_handled_in_order_witness:
  "events (hung_up 9) AND EPOLLHUP \<noteq> 0 \<and>
   handle_event 3 4 ping_world (hung_up 9) = ([Perror ''epoll error'', Sys_close 9], Inr ping_world) \<and>
   events (readable 5) AND EPOLLERR = 0 \<and> events (readable 5) AND EPOLLHUP = 0 \<and>
   events (readable 5) AND EPOLLIN \<noteq> 0 \<and>
   handle_event 3 4 ping_world (readable 5) = read_input_data 5 ping_world \<and>
   handle_event 5 4 ping_world (readable 5) = accept_new_connections 4 5 ping_world \<and>
   length [hung_up 9, readable 3, readable 5] \<le> MAX_EVENTS \<and>
   event_loop 3 4 [Ready ([hung_up 9] @ readable 3 # [readable 5])]
       (ping_world\<lparr>accept_queue := [Pending alice]\<rparr>) =
     ([Sys_epoll_wait 4 (Events [hung_up 9, readable 3, readable 5]),
       Perror ''epoll error'', Sys_close 9,
       Sys_accept 3 (Accepted alice), Sys_setsockopt_reuseport 5,
       Log_accepted ''10.0.0.1'' ''40000'' 5, Set_nonblocking 5,
       Sys_epoll_ctl_add 4 5 (EPOLLIN OR EPOLLET), Sys_accept 3 (Accept_failed EAGAIN),
       Sys_read 5 (Bytes ''ping''), Log_incoming 5 ''ping'', Sys_read 5 (Bytes []),
       Log_closed 5, Sys_close 5],
      Inr quiet_world)"
proof -
  have hup: "events (hung_up 9) AND EPOLLHUP \<noteq> 0"
    by (simp add: hung_up_def EPOLLIN_def EPOLLHUP_def)
  have rd: "events (readable 5) AND EPOLLERR = 0 \<and> events (readable 5) AND EPOLLHUP = 0 \<and>
      events (readable 5) AND EPOLLIN \<noteq> 0"
    by (simp add: readable_def EPOLLIN_def EPOLLHUP_def EPOLLERR_def)
  have len: "length [hung_up 9, readable 3, readable 5] \<le> MAX_EVENTS"
    by (simp add: MAX_EVENTS_def)
  note a = events_handled_in_order [where event = "hung_up 9" and server_fd = 3 and efd = 4
      and w = ping_world and before = "[]" and after = "[]" and evs = "[]" and sched = "[]"]
  note b = events_handled_in_order [where event = "readable 5" and server_fd = 3 and efd = 4
      and w = ping_world and before = "[]" and after = "[]" and evs = "[]" and sched = "[]"]
  note c = events_handled_in_order [where event = "readable 5" and server_fd = 5 and efd = 4
      and w = ping_world and before = "[]" and after = "[]" and evs = "[]" and sched = "[]"]
  note d = events_handled_in_order [where event = "readable 3" and server_fd = 3 and efd = 4
      and w = "ping_world\<lparr>accept_queue := [Pending alice]\<rparr>" and before = "[hung_up 9]"
      and after = "[readable 5]" and evs = "[hung_up 9, readable 3, readable 5]" and sched = "[]"]
  from d len have "event_loop 3 4 [Ready ([hung_up 9] @ readable 3 # [readable 5])]
       (ping_world\<lparr>accept_queue := [Pending alice]\<rparr>) =
     emit [Sys_epoll_wait 4 (Events [hung_up 9, readable 3, readable 5])]
       (and_then (for_events 3 4 (ping_world\<lparr>accept_queue := [Pending alice]\<rparr>)
          [hung_up 9, readable 3, readable 5]) (\<lambda>w'. event_loop 3 4 [] w'))"
    by simp
  then have run: "event_loop 3 4 [Ready ([hung_up 9] @ readable 3 # [readable 5])]
       (ping_world\<lparr>accept_queue := [Pending alice]\<rparr>) =
     ([Sys_epoll_wait 4 (Events [hung_up 9, readable 3, readable 5]),
       Perror ''epoll error'', Sys_close 9,
       Sys_accept 3 (Accepted alice), Sys_setsockopt_reuseport 5,
       Log_accepted ''10.0.0.1'' ''40000'' 5, Set_nonblocking 5,
       Sys_epoll_ctl_add 4 5 (EPOLLIN OR EPOLLET), Sys_accept 3 (Accept_failed EAGAIN),
       Sys_read 5 (Bytes ''ping''), Log_incoming 5 ''ping'', Sys_read 5 (Bytes []),
       Log_closed 5, Sys_close 5],
      Inr quiet_world)"
    by (simp only: busy_batch and_then_Inr event_loop_empty emit_def fst_conv snd_conv append.simps)
  from a hup have 1: "handle_event 3 4 ping_world (hung_up 9) =
      ([Perror ''epoll error'', Sys_close 9], Inr ping_world)"
    by (simp add: data_fd_examples)
  from b rd have 2: "handle_event 3 4 ping_world (readable 5) = read_input_data 5 ping_world"
    by (simp add: data_fd_examples)
  from c rd have 3: "handle_event 5 4 ping_world (readable 5) = accept_new_connections 4 5 ping_world"
    by (simp add: data_fd_examples)
  from hup rd len run 1 2 3 show ?thesis
    by simp
qed

text \<open>
  \<^bold>\<open>C10\<close>. \<^verbatim>\<open>MAX_EVENTS\<close> is 128: a call of \<^verbatim>\<open>epoll_wait\<close> returns at most 128 events to the
  loop. When more are ready, the loop handles the first 128 and meets the others at its
  next call of \<^verbatim>\<open>epoll_wait\<close>. A call that fails handles no event and logs nothing: the
  loop calls \<^verbatim>\<open>epoll_wait\<close> again.
\<close>

theorem event_loop_batches_of_128:
  "MAX_EVENTS = 128 \<and>
   (sys_epoll_wait sched MAX_EVENTS = Some (Events evs, sched') \<longrightarrow> length evs \<le> 128) \<and>
   (128 < length evs \<longrightarrow>
      event_loop server_fd efd (Ready evs # sched) w =
        emit [Sys_epoll_wait efd (Events (take 128 evs))]
          (and_then (for_events server_fd efd w (take 128 evs))
             (\<lambda>w'. event_loop server_fd efd (Ready (drop 128 evs) # sched) w'))) \<and>
   event_loop server_fd efd (Wait_error e # sched) w =
     emit [Sys_epoll_wait efd (Wait_failed e)] (event_loop server_fd efd sched w)"
  using sys_epoll_wait_bound [of sched MAX_EVENTS evs sched']
    event_loop_more [of evs server_fd efd sched w]
  by (simp add: event_loop_error MAX_EVENTS_def)

theorem event_loop_batches_of_128_witness:
  "128 < length (replicate 130 (hung_up 9)) \<and>
   sys_epoll_wait [Ready (replicate 130 (hung_up 9))] MAX_EVENTS =
     Some (Events (replicate 128 (hung_up 9)), [Ready (replicate 2 (hung_up 9))]) \<and>
   length (replicate 128 (hung_up 9)) \<le> 128 \<and>
   event_loop 3 4 [Wait_error 4, Ready (replicate 130 (hung_up 9))] quiet_world =
     (Sys_epoll_wait 4 (Wait_failed 4) #
      Sys_epoll_wait 4 (Events (replicate 128 (hung_up 9))) #
      concat (replicate 128 [Perror ''epoll error'', Sys_close 9]) @
      Sys_epoll_wait 4 (Events (replicate 2 (hung_up 9))) #
      concat (replicate 2 [Perror ''epoll error'', Sys_close 9]),
      Inr quiet_world)"
proof -
  have w: "sys_epoll_wait [Ready (replicate 130 (hung_up 9))] MAX_EVENTS =
     Some (Events (replicate 128 (hung_up 9)), [Ready (replicate 2 (hung_up 9))])"
    by (simp add: MAX_EVENTS_def)
  note a = event_loop_batches_of_128 [where sched = "[Ready (replicate 130 (hung_up 9))]"
      and evs = "replicate 128 (hung_up 9)" and sched' = "[Ready (replicate 2 (hung_up 9))]"
      and e = 4 and server_fd = 3 and efd = 4 and w = quiet_world]
  note b = event_loop_batches_of_128 [where sched = "[]" and evs = "replicate 130 (hung_up 9)"
      and server_fd = 3 and efd = 4 and w = quiet_world]
  have rest: "event_loop 3 4 [Ready (replicate 2 (hung_up 9))] quiet_world =
      (Sys_epoll_wait 4 (Events (replicate 2 (hung_up 9))) #
       concat (replicate 2 [Perror ''epoll error'', Sys_close 9]), Inr quiet_world)"
    by (simp add: event_loop_ready MAX_EVENTS_def for_events_replicate abnormal_hung_up
        and_then_Inr event_loop_empty emit_def data_fd_examples)
  from b have "event_loop 3 4 [Ready (replicate 130 (hung_up 9))] quiet_world =
      (Sys_epoll_wait 4 (Events (replicate 128 (hung_up 9))) #
       concat (replicate 128 [Perror ''epoll error'', Sys_close 9]) @
       Sys_epoll_wait 4 (Events (replicate 2 (hung_up 9))) #
       concat (replicate 2 [Perror ''epoll error'', Sys_close 9]), Inr quiet_world)"
    by (simp add: for_events_replicate abnormal_hung_up and_then_Inr rest emit_def
        data_fd_examples)
  with a w show ?thesis
    by (simp add: emit_def)
qed

section \<open>Properties of \<^verbatim>\<open>main\<close>\<close>

text \<open>
  \<^bold>\<open>C8\<close>. Called with any number of arguments other than one (none, or two and more),
  \<^verbatim>\<open>main\<close> writes the usage line to standard error and exits with \<^verbatim>\<open>EXIT_FAILURE\<close>, which
  is not 0. The usage line is the whole trace: no socket is created and \<^verbatim>\<open>epoll_wait\<close> is
  never called.
\<close>

theorem main_usage:
  "length args \<noteq> 1 \<Longrightarrow>
     main argv0 args boot sched w = ([Usage argv0], Exit EXIT_FAILURE) \<and> EXIT_FAILURE \<noteq> 0"
  by (simp add: main_def EXIT_FAILURE_def)

theorem main_usage_witness:
  "length ([] :: string list) \<noteq> 1 \<and>
   main ''server'' [] boot_ok [] ping_world = ([Usage ''server''], Exit 1) \<and>
   length [''8080'', ''8081''] \<noteq> 1 \<and>
   main ''server'' [''8080'', ''8081''] boot_ok [] ping_world = ([Usage ''server''], Exit 1)"
  using main_usage [of "[]" "''server''" boot_ok "[]" ping_world]
    main_usage [of "[''8080'', ''8081'']" "''server''" boot_ok "[]" ping_world]
  by (simp add: EXIT_FAILURE_def)

section \<open>Failures in the running server\<close>

text \<open>\<^verbatim>\<open>main\<close> with one argument when every start-up call succeeds.\<close>

lemma main_started:
  "main argv0 [port] boot_ok sched w =
     ([Sys_getaddrinfo port, Sys_socket (Some 3), Sys_bind 3, Sys_freeaddrinfo,
       Set_nonblocking 3, Sys_listen 3, Sys_epoll_create1 (Some 4),
       Sys_epoll_ctl_add 4 3 (EPOLLIN OR EPOLLET)] @ fst (event_loop 3 4 sched w),
      case snd (event_loop 3 4 sched w) of Inl a \<Rightarrow> Stopped a | Inr w' \<Rightarrow> Waiting w')"
  by (simp add: main_def create_server_socket_def make_socket_non_blocking_def boot_ok_def
      split: prod.splits sum.splits)

lemma main_one_socket:
  "length (filter is_socket (fst (main program args boot sched w))) \<le> 1"
proof -
  have "filter is_socket tr = []" if "event_loop server_fd efd sched w = (tr, r)"
    for server_fd efd tr r
    using event_loop_actions [of _ server_fd efd sched w] that
    by (auto simp: filter_empty_conv)
  then show ?thesis
    by (auto simp: main_def create_server_socket_def make_socket_non_blocking_def Let_def
        split: prod.splits sum.splits option.splits if_splits)
qed

text \<open>Three runs of the loop worked out.\<close>

lemma refused_registration_run:
  "event_loop 3 4 [Ready [readable 3]] (quiet_world\<lparr>accept_queue := [Pending carol]\<rparr>) =
     ([Sys_epoll_wait 4 (Events [readable 3]), Sys_accept 3 (Accepted carol),
       Sys_setsockopt_reuseport 7, Log_accepted ''10.0.0.3'' ''40002'' 7, Set_nonblocking 7,
       Sys_epoll_ctl_add 4 7 (EPOLLIN OR EPOLLET), Perror ''epoll_ctl''],
      Inl (Runtime_error ''call to epoll_ctl failed (attempted to add new incoming connection)''))"
proof -
  have "accept_new_connections 4 3 (quiet_world\<lparr>accept_queue := [Pending carol]\<rparr>) =
     ([Sys_accept 3 (Accepted carol),
       Sys_setsockopt_reuseport 7, Log_accepted ''10.0.0.3'' ''40002'' 7, Set_nonblocking 7,
       Sys_epoll_ctl_add 4 7 (EPOLLIN OR EPOLLET), Perror ''epoll_ctl''],
      Inl (Runtime_error ''call to epoll_ctl failed (attempted to add new incoming connection)''))"
    by (simp add: accept_pending [where q = "[]"]) (simp add: set_up_connection_def carol_def)
  then show ?thesis
    by (simp add: event_loop_ready MAX_EVENTS_def handle_event_def normal_readable
        data_fd_examples and_then_Inl emit_def)
qed

lemma listener_hangup_run:
  "event_loop 3 4 [Ready [hung_up 3], Ready [readable 5]] ping_world =
     ([Sys_epoll_wait 4 (Events [hung_up 3]), Perror ''epoll error'', Sys_close 3,
       Sys_epoll_wait 4 (Events [readable 5]),
       Sys_read 5 (Bytes ''ping''), Log_incoming 5 ''ping'', Sys_read 5 (Bytes []),
       Log_closed 5, Sys_close 5],
      Inr quiet_world)"
  by (simp add: event_loop_ready MAX_EVENTS_def handle_event_def normal_readable abnormal_hung_up
      data_fd_examples and_then_Inr and_then_Inl emit_def event_loop_empty ping_run
      ping_world_drained)

lemma steady_troubled_world: "steady troubled_world"
  unfolding steady_def registrable_def short_reads_def
  by (auto simp: troubled_world_def reset_world_def alice_def BUFSIZE_def split: if_splits)

lemma troubled_run:
  "event_loop 3 4 [Ready [readable 3, readable 5, hung_up 6]] troubled_world =
     ([Sys_epoll_wait 4 (Events [readable 3, readable 5, hung_up 6]),
       Sys_accept 3 (Accept_failed 24), Perror ''accept'',
       Sys_read 5 (Bytes ''hi''), Log_incoming 5 ''hi'', Sys_read 5 (Read_failed 104),
       Perror ''read'', Log_closed 5, Sys_close 5,
       Perror ''epoll error'', Sys_close 6],
      Inr (reset_world\<lparr>accept_queue := [Pending alice],
         recv_queue := (\<lambda>fd. if fd = 5 then [] else [Data ''yo''])\<rparr>))"
proof -
  have a: "accept_new_connections 4 3 troubled_world =
      ([Sys_accept 3 (Accept_failed 24), Perror ''accept''],
       Inr (reset_world\<lparr>accept_queue := [Pending alice]\<rparr>))"
    by (simp add: accept_error [where q = "[Pending alice]" and e = 24] troubled_world_def
        EAGAIN_def EWOULDBLOCK_def)
  have r: "read_input_data 5 (reset_world\<lparr>accept_queue := [Pending alice]\<rparr>) =
      ([Sys_read 5 (Bytes ''hi''), Log_incoming 5 ''hi'', Sys_read 5 (Read_failed 104),
        Perror ''read'', Log_closed 5, Sys_close 5],
       Inr (reset_world\<lparr>accept_queue := [Pending alice],
         recv_queue := (\<lambda>fd. if fd = 5 then [] else [Data ''yo''])\<rparr>))"
    by (simp add: read_input_data_def read_loop_step reset_world_def BUFSIZE_def NUL_def emit_def
        EAGAIN_def fun_eq_iff)
  show ?thesis
    by (simp add: event_loop_ready MAX_EVENTS_def handle_event_def normal_readable
        abnormal_hung_up data_fd_examples a r and_then_Inr emit_def event_loop_empty)
qed

text \<open>
  \<^bold>\<open>C2\<close>, as claimed, fails. The claim counts the registration of a newly accepted
  descriptor among the failures that are logged, closed and survived. In the code a
  failing \<^verbatim>\<open>epoll_ctl\<close> in \<^verbatim>\<open>accept_new_connections\<close> is followed by \<^verbatim>\<open>perror\<close> and
  \<^verbatim>\<open>throw std::runtime_error\<close>, which nothing catches: with \<open>carol\<close> waiting, the server
  accepts her, fails to register descriptor 7, leaves it open and is terminated.
\<close>

theorem refused_registration_stops_the_server:
  "main ''server'' [''8080''] boot_ok [Ready [readable 3]]
       (quiet_world\<lparr>accept_queue := [Pending carol]\<rparr>) =
     ([Sys_getaddrinfo ''8080'', Sys_socket (Some 3), Sys_bind 3, Sys_freeaddrinfo,
       Set_nonblocking 3, Sys_listen 3, Sys_epoll_create1 (Some 4),
       Sys_epoll_ctl_add 4 3 (EPOLLIN OR EPOLLET),
       Sys_epoll_wait 4 (Events [readable 3]), Sys_accept 3 (Accepted carol),
       Sys_setsockopt_reuseport 7, Log_accepted ''10.0.0.3'' ''40002'' 7, Set_nonblocking 7,
       Sys_epoll_ctl_add 4 7 (EPOLLIN OR EPOLLET), Perror ''epoll_ctl''],
      Stopped (Runtime_error
        ''call to epoll_ctl failed (attempted to add new incoming connection)''))"
  by (simp add: main_started refused_registration_run)

text \<open>
  \<^bold>\<open>C2\<close>, amended. In a world where every waiting connection registers (and no chunk
  fills the read buffer: C1), the event loop is never stopped, whatever \<^verbatim>\<open>accept\<close> and
  \<^verbatim>\<open>read\<close> fail with and whatever events arrive. An event with error or hangup is
  logged, its descriptor closed, and nothing else changes. A \<^verbatim>\<open>read\<close> that fails with an
  error other than \<^verbatim>\<open>EAGAIN\<close> is logged and its descriptor closed; the reader returns. An
  \<^verbatim>\<open>accept\<close> that fails with an error other than would-block is logged (there is no
  descriptor to close); the acceptor returns. A registration that fails is logged, the
  new descriptor is not closed, and the \<^verbatim>\<open>runtime_error\<close> stops the process.
\<close>

theorem steady_failures_isolated:
  "(steady w \<longrightarrow>
      (\<exists>tr w'. event_loop server_fd efd sched w = (tr, Inr w') \<and> steady w')) \<and>
   (abnormal event \<longrightarrow>
      handle_event server_fd efd w event =
        ([Perror ''epoll error'', Sys_close (data_fd event)], Inr w)) \<and>
   (recv_queue w fd = Recv_error e # q \<and> e \<noteq> EAGAIN \<longrightarrow>
      read_input_data fd w =
        ([Sys_read fd (Read_failed e), Perror ''read'', Log_closed fd, Sys_close fd],
         Inr (w\<lparr>recv_queue := (recv_queue w)(fd := q)\<rparr>))) \<and>
   (accept_queue w = Accept_error e # aq \<and> e \<noteq> EAGAIN \<and> e \<noteq> EWOULDBLOCK \<longrightarrow>
      accept_new_connections efd server_fd w =
        ([Sys_accept server_fd (Accept_failed e), Perror ''accept''],
         Inr (w\<lparr>accept_queue := aq\<rparr>))) \<and>
   (accept_queue w = Pending c # aq \<and> \<not> registers c \<longrightarrow>
      accept_new_connections efd server_fd w =
        (Sys_accept server_fd (Accepted c) # set_up_connection efd c @ [Perror ''epoll_ctl''],
         Inl (Runtime_error
           ''call to epoll_ctl failed (attempted to add new incoming connection)'')) \<and>
      Sys_close (conn_fd c) \<notin> set (set_up_connection efd c))"
proof (intro conjI impI)
  assume "steady w"
  then show "\<exists>tr w'. event_loop server_fd efd sched w = (tr, Inr w') \<and> steady w'"
    by (rule event_loop_steady)
next
  assume "abnormal event"
  then show "handle_event server_fd efd w event =
      ([Perror ''epoll error'', Sys_close (data_fd event)], Inr w)"
    by (rule handle_abnormal)
next
  assume "recv_queue w fd = Recv_error e # q \<and> e \<noteq> EAGAIN"
  then have "sys_read (recv_queue w fd) BUFSIZE = (Read_failed e, q)" and "e \<noteq> EAGAIN"
    by simp_all
  then show "read_input_data fd w =
      ([Sys_read fd (Read_failed e), Perror ''read'', Log_closed fd, Sys_close fd],
       Inr (w\<lparr>recv_queue := (recv_queue w)(fd := q)\<rparr>))"
    by (simp add: read_input_data_def read_loop_failed)
next
  assume "accept_queue w = Accept_error e # aq \<and> e \<noteq> EAGAIN \<and> e \<noteq> EWOULDBLOCK"
  then have "accept_queue w = Accept_error e # aq" and "\<not> (e = EAGAIN \<or> e = EWOULDBLOCK)"
    by simp_all
  then show "accept_new_connections efd server_fd w =
      ([Sys_accept server_fd (Accept_failed e), Perror ''accept''],
       Inr (w\<lparr>accept_queue := aq\<rparr>))"
    by (simp add: accept_error [where q = aq])
next
  assume "accept_queue w = Pending c # aq \<and> \<not> registers c"
  then have "accept_queue w = Pending c # aq" and "\<not> registers c"
    by simp_all
  then show "accept_new_connections efd server_fd w =
      (Sys_accept server_fd (Accepted c) # set_up_connection efd c @ [Perror ''epoll_ctl''],
       Inl (Runtime_error
         ''call to epoll_ctl failed (attempted to add new incoming connection)''))"
    by (simp add: accept_pending [where q = aq])
next
  show "Sys_close (conn_fd c) \<notin> set (set_up_connection efd c)"
    using set_up_connection_actions [of "Sys_close (conn_fd c)" efd c "conn_fd c"]
    by auto
qed

theorem steady_failures_isolated_witness:
  "steady troubled_world \<and>
   event_loop 3 4 [Ready [readable 3, readable 5, hung_up 6]] troubled_world =
     ([Sys_epoll_wait 4 (Events [readable 3, readable 5, hung_up 6]),
       Sys_accept 3 (Accept_failed 24), Perror ''accept'',
       Sys_read 5 (Bytes ''hi''), Log_incoming 5 ''hi'', Sys_read 5 (Read_failed 104),
       Perror ''read'', Log_closed 5, Sys_close 5,
       Perror ''epoll error'', Sys_close 6],
      Inr (reset_world\<lparr>accept_queue := [Pending alice],
         recv_queue := (\<lambda>fd. if fd = 5 then [] else [Data ''yo''])\<rparr>)) \<and>
   steady (reset_world\<lparr>accept_queue := [Pending alice],
         recv_queue := (\<lambda>fd. if fd = 5 then [] else [Data ''yo''])\<rparr>) \<and>
   abnormal (hung_up 6) \<and>
   handle_event 3 4 troubled_world (hung_up 6) =
     ([Perror ''epoll error'', Sys_close 6], Inr troubled_world) \<and>
   accept_queue troubled_world = Accept_error 24 # [Pending alice] \<and>
   (24::int) \<noteq> EAGAIN \<and> (24::int) \<noteq> EWOULDBLOCK \<and>
   accept_new_connections 4 3 troubled_world =
     ([Sys_accept 3 (Accept_failed 24), Perror ''accept''],
      Inr (troubled_world\<lparr>accept_queue := [Pending alice]\<rparr>)) \<and>
   (104::int) \<noteq> EAGAIN \<and>
   read_input_data 5 (quiet_world\<lparr>recv_queue := (\<lambda>fd. [Recv_error 104])\<rparr>) =
     ([Sys_read 5 (Read_failed 104), Perror ''read'', Log_closed 5, Sys_close 5],
      Inr (quiet_world\<lparr>recv_queue := (\<lambda>fd. if fd = 5 then [] else [Recv_error 104])\<rparr>)) \<and>
   \<not> registers carol \<and>
   accept_new_connections 4 3 (quiet_world\<lparr>accept_queue := [Pending carol]\<rparr>) =
     ([Sys_accept 3 (Accepted carol), Sys_setsockopt_reuseport 7,
       Log_accepted ''10.0.0.3'' ''40002'' 7, Set_nonblocking 7,
       Sys_epoll_ctl_add 4 7 (EPOLLIN OR EPOLLET), Perror ''epoll_ctl''],
      Inl (Runtime_error ''call to epoll_ctl failed (attempted to add new incoming connection)''))"
proof -
  note u = steady_failures_isolated [where w = "quiet_world\<lparr>recv_queue := (\<lambda>fd. [Recv_error 104])\<rparr>"
      and fd = 5 and e = 104 and q = "[]"]
  note v = steady_failures_isolated [where w = "quiet_world\<lparr>accept_queue := [Pending carol]\<rparr>"
      and server_fd = 3 and efd = 4 and c = carol and aq = "[]"]
  have e': "(104::int) \<noteq> EAGAIN"
    by (simp add: EAGAIN_def)
  have c: "\<not> registers carol"
    by (simp add: carol_def)
  from u e' have 4: "read_input_data 5 (quiet_world\<lparr>recv_queue := (\<lambda>fd. [Recv_error 104])\<rparr>) =
     ([Sys_read 5 (Read_failed 104), Perror ''read'', Log_closed 5, Sys_close 5],
      Inr (quiet_world\<lparr>recv_queue := (\<lambda>fd. if fd = 5 then [] else [Recv_error 104])\<rparr>))"
    by (simp add: fun_eq_iff)
  from v c have 5: "accept_new_connections 4 3 (quiet_world\<lparr>accept_queue := [Pending carol]\<rparr>) =
     ([Sys_accept 3 (Accepted carol), Sys_setsockopt_reuseport 7,
       Log_accepted ''10.0.0.3'' ''40002'' 7, Set_nonblocking 7,
       Sys_epoll_ctl_add 4 7 (EPOLLIN OR EPOLLET), Perror ''epoll_ctl''],
      Inl (Runtime_error ''call to epoll_ctl failed (attempted to add new incoming connection)''))"
    by (simp add: set_up_connection_def) (simp add: carol_def)
  note t = steady_failures_isolated [where w = troubled_world and server_fd = 3 and efd = 4
      and sched = "[Ready [readable 3, readable 5, hung_up 6]]" and event = "hung_up 6"
      and e = 24 and aq = "[Pending alice]"]
  have q: "accept_queue troubled_world = Accept_error 24 # [Pending alice]"
    by (simp add: troubled_world_def)
  have e: "(24::int) \<noteq> EAGAIN \<and> (24::int) \<noteq> EWOULDBLOCK"
    by (simp add: EAGAIN_def EWOULDBLOCK_def)
  from t steady_troubled_world troubled_run
  have 1: "steady (reset_world\<lparr>accept_queue := [Pending alice],
         recv_queue := (\<lambda>fd. if fd = 5 then [] else [Data ''yo''])\<rparr>)"
    by simp
  from t abnormal_hung_up have 2: "handle_event 3 4 troubled_world (hung_up 6) =
     ([Perror ''epoll error'', Sys_close 6], Inr troubled_world)"
    by (simp add: data_fd_examples)
  from t q e have 3: "accept_new_connections 4 3 troubled_world =
     ([Sys_accept 3 (Accept_failed 24), Perror ''accept''],
      Inr (troubled_world\<lparr>accept_queue := [Pending alice]\<rparr>))"
    by simp
  from 1 2 3 4 5 q e e' c steady_troubled_world troubled_run abnormal_hung_up show ?thesis
    by simp
qed

text \<open>
  \<^bold>\<open>C6\<close>, as claimed, fails. The claim: no readiness event for the listening
  descriptor makes the loop close it while the reactor keeps running. In the code the
  branch for error, hangup or not-readable comes before the test for the listening
  socket and closes whatever descriptor the event names: a hangup event on descriptor 3,
  the listening socket, closes it, and the loop goes on to serve descriptor 5.
\<close>

theorem listener_closed_by_hangup_event:
  "main ''server'' [''8080''] boot_ok [Ready [hung_up 3], Ready [readable 5]] ping_world =
     ([Sys_getaddrinfo ''8080'', Sys_socket (Some 3), Sys_bind 3, Sys_freeaddrinfo,
       Set_nonblocking 3, Sys_listen 3, Sys_epoll_create1 (Some 4),
       Sys_epoll_ctl_add 4 3 (EPOLLIN OR EPOLLET),
       Sys_epoll_wait 4 (Events [hung_up 3]), Perror ''epoll error'', Sys_close 3,
       Sys_epoll_wait 4 (Events [readable 5]),
       Sys_read 5 (Bytes ''ping''), Log_incoming 5 ''ping'', Sys_read 5 (Bytes []),
       Log_closed 5, Sys_close 5],
      Waiting quiet_world)"
  by (simp add: main_started listener_hangup_run)

text \<open>
  \<^bold>\<open>C6\<close>, amended. The event loop closes the listening socket only when an event
  delivered for the listening descriptor itself has error or hangup set or lacks
  readable; it then closes it and keeps running. No drain of the acceptor or of the
  reader and no event of another descriptor closes it. \<^verbatim>\<open>main\<close> creates at most one
  socket, at start-up.
\<close>

theorem listener_closed_only_by_its_own_event:
  "(Sys_close server_fd \<in> set (fst (event_loop server_fd efd sched w)) \<longrightarrow>
      (\<exists>evs event. Ready evs \<in> set sched \<and> event \<in> set evs \<and>
         data_fd event = server_fd \<and> abnormal event)) \<and>
   (abnormal event \<and> data_fd event = server_fd \<longrightarrow>
      handle_event server_fd efd w event =
        ([Perror ''epoll error'', Sys_close server_fd], Inr w)) \<and>
   length (filter is_socket (fst (main program args boot sched w))) \<le> 1"
proof (intro conjI impI)
  assume "Sys_close server_fd \<in> set (fst (event_loop server_fd efd sched w))"
  from event_loop_actions [OF this, of server_fd]
  show "\<exists>evs event. Ready evs \<in> set sched \<and> event \<in> set evs \<and>
      data_fd event = server_fd \<and> abnormal event"
    by auto
next
  assume "abnormal event \<and> data_fd event = server_fd"
  then show "handle_event server_fd efd w event =
      ([Perror ''epoll error'', Sys_close server_fd], Inr w)"
    by (auto simp: handle_abnormal)
next
  show "length (filter is_socket (fst (main program args boot sched w))) \<le> 1"
    by (rule main_one_socket)
qed

theorem listener_closed_only_by_its_own_event_witness:
  "Sys_close 3 \<in> set (fst (event_loop 3 4 [Ready [hung_up 3], Ready [readable 5]] ping_world)) \<and>
   Ready [hung_up 3] \<in> set [Ready [hung_up 3], Ready [readable 5]] \<and>
   hung_up 3 \<in> set [hung_up 3] \<and> data_fd (hung_up 3) = 3 \<and> abnormal (hung_up 3) \<and>
   handle_event 3 4 ping_world (hung_up 3) = ([Perror ''epoll error'', Sys_close 3], Inr ping_world) \<and>
   length (filter is_socket
     (fst (main ''server'' [''8080''] boot_ok [Ready [hung_up 3], Ready [readable 5]] ping_world))) = 1"
proof -
  note t = listener_closed_only_by_its_own_event [where server_fd = 3 and efd = 4
      and sched = "[Ready [hung_up 3], Ready [readable 5]]" and w = ping_world
      and event = "hung_up 3" and program = "''server''" and args = "[''8080'']" and boot = boot_ok]
  have c: "Sys_close 3 \<in> set (fst (event_loop 3 4 [Ready [hung_up 3], Ready [readable 5]] ping_world))"
    by (simp add: listener_hangup_run)
  from t abnormal_hung_up
  have h: "handle_event 3 4 ping_world (hung_up 3) =
      ([Perror ''epoll error'', Sys_close 3], Inr ping_world)"
    by (simp add: data_fd_examples)
  have "length (filter is_socket
     (fst (main ''server'' [''8080''] boot_ok [Ready [hung_up 3], Ready [readable 5]] ping_world))) = 1"
    by (simp add: main_started listener_hangup_run)
  with c h abnormal_hung_up show ?thesis
    by (simp add: data_fd_examples)
qed

end
